theory Spec2Isabelle
  imports Main "HOL-Library.Word"
begin

unbundle bit_operations_syntax

section \<open>zkInterface libsnark integration helpers: data model\<close>

text \<open>
  The embedding follows \<^verbatim>\<open>src/cpp/libsnark_integration.cpp\<close>. Machine integers are
  words: a byte is \<^verbatim>\<open>uint8_t\<close>, a limb is \<^verbatim>\<open>mp_limb_t\<close> (64 bits), variable ids and
  protoboard indices are \<^verbatim>\<open>uint64_t\<close>. Sizes and loop counters (\<^verbatim>\<open>size_t\<close>) are
  natural numbers. A failed \<^verbatim>\<open>assert\<close>, a division by zero, an access outside an array
  and an allocation of a wrapped-around size are results of their own.
\<close>

type_synonym byte = "8 word"
type_synonym limb = "64 word"
type_synonym u64 = "64 word"

text \<open>\<^verbatim>\<open>bigint<r_limbs>\<close>: the array \<^verbatim>\<open>data[r_limbs]\<close>, least significant limb first.\<close>

type_synonym bigint = "limb list"

datatype error = AssertionFailed | DivisionByZero | OutOfBounds | LengthError

text \<open>\<^verbatim>\<open>sizeof(num.data[0])\<close> for a 64-bit \<^verbatim>\<open>mp_limb_t\<close>.\<close>

definition bytes_per_limb :: nat where
  "bytes_per_limb = 8"

text \<open>
  \<^verbatim>\<open>for (size_t i = 0; i < n; ++i) body\<close> is \<open>for_loop [0..<n] body\<close>: the body is run on
  each index in turn and threads the state; the first failure ends the loop.
\<close>

fun for_loop :: "nat list \<Rightarrow> (nat \<Rightarrow> 's \<Rightarrow> error + 's) \<Rightarrow> 's \<Rightarrow> error + 's" where
  "for_loop [] body s = Inr s"
| "for_loop (i # is) body s =
     (case body i s of Inl e \<Rightarrow> Inl e | Inr s' \<Rightarrow> for_loop is body s')"

section \<open>Element conversion helpers\<close>

text \<open>
  \<^verbatim>\<open>from_le(bytes, size)\<close>. The pointer \<^verbatim>\<open>bytes\<close> is a buffer with an offset into it. The
  number of limbs \<^verbatim>\<open>r_limbs\<close> is a constant of the header, taken as the parameter
  \<open>n_limbs\<close>. The result starts as the zero bigint.
\<close>

definition from_le_body :: "byte list \<Rightarrow> nat \<Rightarrow> nat \<Rightarrow> bigint \<Rightarrow> error + bigint" where
  "from_le_body buf off byte num =
     (let limb = byte div bytes_per_limb;
          limb_byte = byte mod bytes_per_limb
      in if \<not> off + byte < length buf then Inl OutOfBounds
         else if \<not> limb < length num then Inl OutOfBounds
         else Inr (num[limb := (num ! limb) OR
                     push_bit (limb_byte * 8) (ucast (buf ! (off + byte)) :: limb)]))"

definition from_le :: "nat \<Rightarrow> byte list \<Rightarrow> nat \<Rightarrow> nat \<Rightarrow> error + bigint" where
  "from_le n_limbs buf off sz =
     (if \<not> bytes_per_limb * n_limbs \<ge> sz then Inl AssertionFailed
      else for_loop [0..<sz] (from_le_body buf off) (replicate n_limbs 0))"

text \<open>
  \<^verbatim>\<open>into_le(num, out, size)\<close>. The pointer \<^verbatim>\<open>out\<close> is a buffer with an offset; the updated
  buffer is returned. \<^verbatim>\<open>num\<close> has type \<^verbatim>\<open>bigint<r_limbs>\<close>, so \<^verbatim>\<open>r_limbs\<close> is the length
  of its limb array. A \<^verbatim>\<open>size\<close> beyond the limbs passes the assertion and then reads
  \<^verbatim>\<open>num.data\<close> past its end.
\<close>

definition into_le_body :: "bigint \<Rightarrow> nat \<Rightarrow> nat \<Rightarrow> byte list \<Rightarrow> error + byte list" where
  "into_le_body num off byte out =
     (let limb = byte div bytes_per_limb;
          limb_byte = byte mod bytes_per_limb
      in if \<not> limb < length num then Inl OutOfBounds
         else if \<not> off + byte < length out then Inl OutOfBounds
         else Inr (out[off + byte := (ucast (drop_bit (limb_byte * 8) (num ! limb)) :: byte)]))"

definition into_le :: "bigint \<Rightarrow> byte list \<Rightarrow> nat \<Rightarrow> nat \<Rightarrow> error + byte list" where
  "into_le num out off sz =
     (if \<not> sz \<ge> bytes_per_limb * length num then Inl AssertionFailed
      else for_loop [0..<sz] (into_le_body num off) out)"

text \<open>Encoding into a fresh buffer of \<open>width\<close> bytes and decoding it again at that width.\<close>

definition decode_encode :: "bigint \<Rightarrow> nat \<Rightarrow> error + bigint" where
  "decode_encode num width =
     (case into_le num (replicate width 0) 0 width of
        Inl e \<Rightarrow> Inl e
      | Inr bytes \<Rightarrow> from_le (length num) bytes 0 width)"

text \<open>
  The header \<^verbatim>\<open>libsnark_integration.hpp\<close> fixes the field: the number of limbs, the byte
  width \<^verbatim>\<open>fieldt_size\<close> of an encoded element, and the field type \<^verbatim>\<open>FieldT\<close> of the
  arithmetic library with its conversions to and from a bigint and its default value.
  They are parameters of everything below.
\<close>

record 'f field_params =
  r_limbs :: nat
  fieldt_size :: nat
  as_bigint :: "'f \<Rightarrow> bigint"
  FieldT :: "bigint \<Rightarrow> 'f"
  FieldT_zero :: 'f

text \<open>\<^verbatim>\<open>le_into_elements(from_bytes, num_elements, element_size)\<close>.\<close>

definition le_into_elements_body ::
  "'f field_params \<Rightarrow> byte list \<Rightarrow> nat \<Rightarrow> nat \<Rightarrow> nat \<Rightarrow> 'f list \<Rightarrow> error + 'f list" where
  "le_into_elements_body P from_bytes off element_size i to_elements =
     (case from_le (r_limbs P) from_bytes (off + element_size * i) element_size of
        Inl e \<Rightarrow> Inl e
      | Inr num \<Rightarrow> Inr (to_elements[i := FieldT P num]))"

definition le_into_elements ::
  "'f field_params \<Rightarrow> byte list \<Rightarrow> nat \<Rightarrow> nat \<Rightarrow> nat \<Rightarrow> error + 'f list" where
  "le_into_elements P from_bytes off num_elements element_size =
     for_loop [0..<num_elements] (le_into_elements_body P from_bytes off element_size)
       (replicate num_elements (FieldT_zero P))"

text \<open>
  \<^verbatim>\<open>deserialize_elements(from_bytes, num_elements)\<close>: the element size is the integer
  quotient of the two sizes; nothing is checked, and a count of zero divides by zero.
\<close>

definition deserialize_elements :: "'f field_params \<Rightarrow> byte list \<Rightarrow> nat \<Rightarrow> error + 'f list" where
  "deserialize_elements P from_bytes num_elements =
     (if num_elements = 0 then Inl DivisionByZero
      else let element_size = length from_bytes div num_elements
           in le_into_elements P from_bytes 0 num_elements element_size)"

section \<open>Messages and the protoboard\<close>

text \<open>
  The tables of the generated FlatBuffers header, as the code reads them: \<^verbatim>\<open>Variables\<close>
  has \<^verbatim>\<open>variable_ids()\<close> and \<^verbatim>\<open>values()\<close>, \<^verbatim>\<open>BilinearConstraint\<close> has three of them, a
  \<^verbatim>\<open>Circuit\<close> has \<^verbatim>\<open>connections()\<close> and \<^verbatim>\<open>free_variable_id()\<close>. A finished builder is
  the root message it holds.
\<close>

record Variables =
  variable_ids :: "u64 list"
  values_bytes :: "byte list"

record BilinearConstraint =
  linear_combination_a :: Variables
  linear_combination_b :: Variables
  linear_combination_c :: Variables

record Circuit =
  connections :: Variables
  free_variable_id :: u64

datatype Message =
  Message_ConstraintSystem "BilinearConstraint list"
| Message_Witness Variables

text \<open>
  The constraint engine (libsnark): a linear term is a variable index and a coefficient,
  a linear combination is its vector of terms and \<^verbatim>\<open>add_term\<close> appends to it, a
  constraint holds three linear combinations. The protoboard keeps the constant term
  and the vector \<^verbatim>\<open>values\<close>; \<^verbatim>\<open>val(var)\<close> asserts \<^verbatim>\<open>var.index <= values.size()\<close> and
  is the constant term for index 0 and \<^verbatim>\<open>values[var.index-1]\<close> otherwise;
  \<^verbatim>\<open>num_variables()\<close> is the size of \<^verbatim>\<open>values\<close>.
\<close>

record 'f linear_term =
  index :: u64
  coeff :: 'f

type_synonym 'f linear_combination = "'f linear_term list"

definition add_term :: "'f linear_combination \<Rightarrow> u64 \<Rightarrow> 'f \<Rightarrow> 'f linear_combination" where
  "add_term lc var field_coeff = lc @ [\<lparr>index = var, coeff = field_coeff\<rparr>]"

record 'f r1cs_constraint =
  lc_a :: "'f linear_combination"
  lc_b :: "'f linear_combination"
  lc_c :: "'f linear_combination"

record 'f protoboard =
  constant_term :: 'f
  pb_values :: "'f list"
  constraints :: "'f r1cs_constraint list"

definition num_variables :: "'f protoboard \<Rightarrow> nat" where
  "num_variables pb = length (pb_values pb)"

definition val :: "'f protoboard \<Rightarrow> nat \<Rightarrow> error + 'f" where
  "val pb var =
     (if \<not> var \<le> length (pb_values pb) then Inl AssertionFailed
      else Inr (if var = 0 then constant_term pb else pb_values pb ! (var - 1)))"

text \<open>The assignment \<^verbatim>\<open>pb.val(var) = x\<close> through the reference that \<^verbatim>\<open>val\<close> returns.\<close>

definition val_assign :: "'f protoboard \<Rightarrow> nat \<Rightarrow> 'f \<Rightarrow> error + 'f protoboard" where
  "val_assign pb var x =
     (if \<not> var \<le> length (pb_values pb) then Inl AssertionFailed
      else Inr (if var = 0 then pb\<lparr>constant_term := x\<rparr>
                else pb\<lparr>pb_values := (pb_values pb)[var - 1 := x]\<rparr>))"

section \<open>Helpers to report the content of a protoboard\<close>

text \<open>
  \<^verbatim>\<open>convert_variable_id(circuit, index)\<close>, on \<^verbatim>\<open>uint64_t\<close>. The branch for outputs is
  commented out in the source and is absent here.
\<close>

definition convert_variable_id :: "Circuit \<Rightarrow> u64 \<Rightarrow> u64" where
  "convert_variable_id circuit index0 =
     (if index0 = 0 then 0
      else let index1 = index0 - 1;
               in_ids = variable_ids (connections circuit)
           in if unat index1 < length in_ids then in_ids ! unat index1
              else let index2 = index1 - of_nat (length in_ids);
                       free_id = free_variable_id circuit
                   in free_id + index2)"

text \<open>
  The closure \<^verbatim>\<open>make_lc\<close> of \<^verbatim>\<open>serialize_protoboard_constraints\<close>: both vectors
  (\<open>ids\<close> is the source's \<^verbatim>\<open>variable_ids\<close>) are allocated at their final size and filled
  by index.
\<close>

definition make_lc_body ::
  "'f field_params \<Rightarrow> Circuit \<Rightarrow> 'f linear_term list \<Rightarrow> nat \<Rightarrow>
   u64 list \<times> byte list \<Rightarrow> error + u64 list \<times> byte list" where
  "make_lc_body P circuit terms i st =
     (case st of (ids, coeffs) \<Rightarrow>
        let ids' = ids[i := convert_variable_id circuit (index (terms ! i))]
        in (case into_le (as_bigint P (coeff (terms ! i))) coeffs
                   (fieldt_size P * i) (fieldt_size P) of
              Inl e \<Rightarrow> Inl e
            | Inr coeffs' \<Rightarrow> Inr (ids', coeffs')))"

definition make_lc :: "'f field_params \<Rightarrow> Circuit \<Rightarrow> 'f linear_term list \<Rightarrow> error + Variables" where
  "make_lc P circuit terms =
     (case for_loop [0..<length terms] (make_lc_body P circuit terms)
             (replicate (length terms) 0, replicate (fieldt_size P * length terms) 0) of
        Inl e \<Rightarrow> Inl e
      | Inr (ids, coeffs) \<Rightarrow> Inr \<lparr>variable_ids = ids, values_bytes = coeffs\<rparr>)"

definition serialize_constraint ::
  "'f field_params \<Rightarrow> Circuit \<Rightarrow> 'f r1cs_constraint \<Rightarrow> error + BilinearConstraint" where
  "serialize_constraint P circuit lib_constraint =
     (case make_lc P circuit (lc_a lib_constraint) of Inl e \<Rightarrow> Inl e | Inr va \<Rightarrow>
     (case make_lc P circuit (lc_b lib_constraint) of Inl e \<Rightarrow> Inl e | Inr vb \<Rightarrow>
     (case make_lc P circuit (lc_c lib_constraint) of Inl e \<Rightarrow> Inl e | Inr vc \<Rightarrow>
        Inr \<lparr>linear_combination_a = va, linear_combination_b = vb,
             linear_combination_c = vc\<rparr>)))"

text \<open>
  \<^verbatim>\<open>serialize_protoboard_constraints(circuit, pb)\<close>: the iterator loop over the
  constraints, each one pushed to the back of \<^verbatim>\<open>fb_constraints\<close>.
\<close>

fun serialize_constraints_loop ::
  "'f field_params \<Rightarrow> Circuit \<Rightarrow> 'f r1cs_constraint list \<Rightarrow> BilinearConstraint list \<Rightarrow>
   error + BilinearConstraint list" where
  "serialize_constraints_loop P circuit [] fb_constraints = Inr fb_constraints"
| "serialize_constraints_loop P circuit (lib_constraint # rest) fb_constraints =
     (case serialize_constraint P circuit lib_constraint of
        Inl e \<Rightarrow> Inl e
      | Inr fb \<Rightarrow> serialize_constraints_loop P circuit rest (fb_constraints @ [fb]))"

definition serialize_protoboard_constraints ::
  "'f field_params \<Rightarrow> Circuit \<Rightarrow> 'f protoboard \<Rightarrow> error + Message" where
  "serialize_protoboard_constraints P circuit pb =
     (case serialize_constraints_loop P circuit (constraints pb) [] of
        Inl e \<Rightarrow> Inl e
      | Inr fb_constraints \<Rightarrow> Inr (Message_ConstraintSystem fb_constraints))"

text \<open>
  \<^verbatim>\<open>serialize_protoboard_local_assignment(circuit, num_outputs, pb)\<close>. The subtraction
  \<^verbatim>\<open>all_vars - shared_vars\<close> is on \<^verbatim>\<open>size_t\<close>: with more shared than allocated
  variables it wraps around to a size that no vector can have, and the allocation of
  \<^verbatim>\<open>variable_ids\<close> fails.
\<close>

definition local_assignment_body ::
  "'f field_params \<Rightarrow> 'f protoboard \<Rightarrow> u64 \<Rightarrow> nat \<Rightarrow> nat \<Rightarrow>
   u64 list \<times> byte list \<Rightarrow> error + u64 list \<times> byte list" where
  "local_assignment_body P pb free_id shared_vars i st =
     (case st of (ids, elements) \<Rightarrow>
        let ids' = ids[i := free_id + of_nat i]
        in (case val pb (1 + shared_vars + i) of
              Inl e \<Rightarrow> Inl e
            | Inr x \<Rightarrow>
                (case into_le (as_bigint P x) elements (fieldt_size P * i) (fieldt_size P) of
                   Inl e \<Rightarrow> Inl e
                 | Inr elements' \<Rightarrow> Inr (ids', elements'))))"

definition serialize_protoboard_local_assignment ::
  "'f field_params \<Rightarrow> Circuit \<Rightarrow> nat \<Rightarrow> 'f protoboard \<Rightarrow> error + Message" where
  "serialize_protoboard_local_assignment P circuit num_outputs pb =
     (let all_vars = num_variables pb;
          shared_vars = length (variable_ids (connections circuit)) + num_outputs
      in if all_vars < shared_vars then Inl LengthError
         else let local_vars = all_vars - shared_vars;
                  free_id = free_variable_id circuit
              in case for_loop [0..<local_vars]
                        (local_assignment_body P pb free_id shared_vars)
                        (replicate local_vars 0, replicate (fieldt_size P * local_vars) 0) of
                   Inl e \<Rightarrow> Inl e
                 | Inr (ids, elements) \<Rightarrow>
                     Inr (Message_Witness \<lparr>variable_ids = ids, values_bytes = elements\<rparr>))"

section \<open>Helpers to write into a protoboard\<close>

text \<open>\<^verbatim>\<open>deserialize_lincomb(terms)\<close>: the variable of a term is built from the id as it is.\<close>

definition deserialize_lincomb ::
  "'f field_params \<Rightarrow> Variables \<Rightarrow> error + 'f linear_combination" where
  "deserialize_lincomb P terms =
     (let ids = variable_ids terms;
          num_terms = length ids
      in case deserialize_elements P (values_bytes terms) num_terms of
           Inl e \<Rightarrow> Inl e
         | Inr elements \<Rightarrow>
             for_loop [0..<num_terms]
               (\<lambda>i lc. Inr (add_term lc (ids ! i) (elements ! i))) [])"

definition deserialize_constraint ::
  "'f field_params \<Rightarrow> BilinearConstraint \<Rightarrow> error + 'f r1cs_constraint" where
  "deserialize_constraint P constraint =
     (case deserialize_lincomb P (linear_combination_a constraint) of Inl e \<Rightarrow> Inl e | Inr la \<Rightarrow>
     (case deserialize_lincomb P (linear_combination_b constraint) of Inl e \<Rightarrow> Inl e | Inr lb \<Rightarrow>
     (case deserialize_lincomb P (linear_combination_c constraint) of Inl e \<Rightarrow> Inl e | Inr lc \<Rightarrow>
        Inr \<lparr>lc_a = la, lc_b = lb, lc_c = lc\<rparr>)))"

text \<open>\<^verbatim>\<open>copy_variables_into_protoboard(pb, variables)\<close>.\<close>

definition copy_variables_body ::
  "u64 list \<Rightarrow> 'f list \<Rightarrow> nat \<Rightarrow> 'f protoboard \<Rightarrow> error + 'f protoboard" where
  "copy_variables_body ids elements i pb =
     (let id = ids ! i
      in if id = 0 then Inr pb
         else val_assign pb (unat id) (elements ! i))"

definition copy_variables_into_protoboard ::
  "'f field_params \<Rightarrow> 'f protoboard \<Rightarrow> Variables \<Rightarrow> error + 'f protoboard" where
  "copy_variables_into_protoboard P pb variables =
     (let ids = variable_ids variables;
          n_variables = length ids
      in case deserialize_elements P (values_bytes variables) n_variables of
           Inl e \<Rightarrow> Inl e
         | Inr elements \<Rightarrow>
             for_loop [0..<n_variables] (copy_variables_body ids elements) pb)"

section \<open>The specification's translation of wire ids\<close>

text \<open>
  The mapping \<^verbatim>\<open>to_internal(wire_id, connection_ids, free_id)\<close> as the specification
  words it; the source has no function of this kind. It is here to be compared with
  what the import functions do.
\<close>

definition spec_to_internal :: "u64 \<Rightarrow> u64 list \<Rightarrow> u64 \<Rightarrow> u64" where
  "spec_to_internal wire_id connection_ids free_id =
     (if wire_id = 0 then 0
      else let i = wire_id - 1
           in if unat i < length connection_ids then 1 + i
              else free_id + (i - of_nat (length connection_ids)))"

section \<open>Auxiliary notions for the proofs\<close>

text \<open>Byte \<open>j\<close> of the little-endian encoding of a bigint, and the whole encoding.\<close>

definition le_byte :: "bigint \<Rightarrow> nat \<Rightarrow> byte" where
  "le_byte num j = ucast (drop_bit (j mod bytes_per_limb * 8) (num ! (j div bytes_per_limb)))"

definition le_bytes :: "bigint \<Rightarrow> byte list" where
  "le_bytes num = map (le_byte num) [0..<bytes_per_limb * length num]"

text \<open>A buffer after \<open>k\<close> entries have been written from offset \<open>off\<close>.\<close>

definition write_region :: "'a list \<Rightarrow> nat \<Rightarrow> nat \<Rightarrow> (nat \<Rightarrow> 'a) \<Rightarrow> 'a list" where
  "write_region out off k f =
     map (\<lambda>j. if off \<le> j \<and> j < off + k then f (j - off) else out ! j) [0..<length out]"

text \<open>Bit \<open>m\<close> of limb \<open>l\<close> once the first \<open>k\<close> bytes at \<open>off\<close> have been read.\<close>

definition le_limb_bit :: "byte list \<Rightarrow> nat \<Rightarrow> nat \<Rightarrow> nat \<Rightarrow> nat \<Rightarrow> bool" where
  "le_limb_bit buf off k l m \<longleftrightarrow>
     m < 64 \<and> 8 * l + m div 8 < k \<and> bit (buf ! (off + (8 * l + m div 8))) (m mod 8)"

definition limbs_upto :: "byte list \<Rightarrow> nat \<Rightarrow> nat \<Rightarrow> bigint \<Rightarrow> bool" where
  "limbs_upto buf off k num \<longleftrightarrow>
     (\<forall>l < length num. \<forall>m. bit (num ! l) m = le_limb_bit buf off k l m)"

text \<open>
  A field whose elements are their own canonical bigints of \<open>n\<close> limbs, encoded in
  \<open>8 * n\<close> bytes: the instance used for concrete runs. The pairing curve of the
  header has four limbs and 32 bytes.
\<close>

definition bigint_params :: "nat \<Rightarrow> bigint field_params" where
  "bigint_params n =
     \<lparr>r_limbs = n, fieldt_size = 8 * n, as_bigint = (\<lambda>x. x), FieldT = (\<lambda>num. num),
      FieldT_zero = replicate n 0\<rparr>"

text \<open>The bigint that \<open>from_le\<close> returns where it returns one.\<close>

definition from_le_value :: "nat \<Rightarrow> byte list \<Rightarrow> nat \<Rightarrow> nat \<Rightarrow> bigint" where
  "from_le_value n buf off sz = (case from_le n buf off sz of Inl e \<Rightarrow> [] | Inr num \<Rightarrow> num)"

text \<open>Byte \<open>j\<close> of the concatenated encodings, \<open>w\<close> bytes each, of the bigints \<open>g 0\<close>, \<open>g 1\<close>, ...\<close>

definition packed_byte :: "nat \<Rightarrow> (nat \<Rightarrow> bigint) \<Rightarrow> nat \<Rightarrow> byte" where
  "packed_byte w g j = le_byte (g (j div w)) (j mod w)"

text \<open>One round of the loops that fill an id vector and a packed element buffer.\<close>

definition pack_body ::
  "nat \<Rightarrow> (nat \<Rightarrow> u64) \<Rightarrow> (nat \<Rightarrow> bigint) \<Rightarrow> nat \<Rightarrow> u64 list \<times> byte list \<Rightarrow>
   error + u64 list \<times> byte list" where
  "pack_body w f g i st =
     (case st of (ids, buf) \<Rightarrow>
        (case into_le (g i) buf (w * i) w of
           Inl e \<Rightarrow> Inl e
         | Inr buf' \<Rightarrow> Inr (ids[i := f i], buf')))"

text \<open>The full assignment: the constant one, then the allocated variables.\<close>

definition full_assignment :: "'f protoboard \<Rightarrow> 'f list" where
  "full_assignment pb = constant_term pb # pb_values pb"

text \<open>What a linear combination is on the wire: translated ids, packed coefficients.\<close>

definition wire_lc :: "'f field_params \<Rightarrow> Circuit \<Rightarrow> 'f linear_term list \<Rightarrow> Variables" where
  "wire_lc P circuit terms =
     \<lparr>variable_ids = map (\<lambda>t. convert_variable_id circuit (index t)) terms,
      values_bytes = concat (map (\<lambda>t. le_bytes (as_bigint P (coeff t))) terms)\<rparr>"

definition wire_constraint ::
  "'f field_params \<Rightarrow> Circuit \<Rightarrow> 'f r1cs_constraint \<Rightarrow> BilinearConstraint" where
  "wire_constraint P circuit c =
     \<lparr>linear_combination_a = wire_lc P circuit (lc_a c),
      linear_combination_b = wire_lc P circuit (lc_b c),
      linear_combination_c = wire_lc P circuit (lc_c c)\<rparr>"

text \<open>Every coefficient of a constraint has a bigint of \<open>r_limbs\<close> limbs.\<close>

definition coeffs_fit :: "'f field_params \<Rightarrow> 'f r1cs_constraint \<Rightarrow> bool" where
  "coeffs_fit P c \<longleftrightarrow>
     (\<forall>t \<in> set (lc_a c) \<union> set (lc_b c) \<union> set (lc_c c). length (as_bigint P (coeff t)) = r_limbs P)"

text \<open>
  The examples of the specification: connection ids 5 and 9, free id 100; one output;
  a full assignment of five entries whose only local variable has the value 42; the
  constraint with \<open>3 * x\<close> for A, \<open>7 * y\<close> for B and the empty sum for C.
\<close>

definition example_circuit :: Circuit where
  "example_circuit =
     \<lparr>connections = \<lparr>variable_ids = [5, 9], values_bytes = []\<rparr>, free_variable_id = 100\<rparr>"

definition example_pb :: "bigint protoboard" where
  "example_pb =
     \<lparr>constant_term = [1], pb_values = [[11], [12], [13], [42]],
      constraints = [\<lparr>lc_a = [\<lparr>index = 1, coeff = [3]\<rparr>], lc_b = [\<lparr>index = 2, coeff = [7]\<rparr>],
                      lc_c = []\<rparr>]\<rparr>"

text \<open>A block of variables whose element bytes \<open>deserialize_elements\<close> can decode.\<close>

definition decodable :: "'f field_params \<Rightarrow> Variables \<Rightarrow> bool" where
  "decodable P v \<longleftrightarrow>
     variable_ids v \<noteq> [] \<and>
     length (values_bytes v) div length (variable_ids v) \<le> bytes_per_limb * r_limbs P"

text \<open>
  The terms of a linear combination are those of a block of variables: the same ids in
  the same order, each with the element decoded at its position.
\<close>

definition terms_of_wire :: "'f field_params \<Rightarrow> Variables \<Rightarrow> 'f linear_combination \<Rightarrow> bool" where
  "terms_of_wire P v lc \<longleftrightarrow>
     map index lc = variable_ids v \<and>
     deserialize_elements P (values_bytes v) (length (variable_ids v)) = Inr (map coeff lc)"

text \<open>The value of the last of the first \<open>k\<close> pairs of a message that has the id.\<close>

fun last_value :: "u64 list \<Rightarrow> 'f list \<Rightarrow> nat \<Rightarrow> u64 \<Rightarrow> 'f option" where
  "last_value ids es 0 var = None"
| "last_value ids es (Suc k) var =
     (if ids ! k = var then Some (es ! k) else last_value ids es k var)"

definition example_wire_constraint :: BilinearConstraint where
  "example_wire_constraint =
     \<lparr>linear_combination_a = \<lparr>variable_ids = [100], values_bytes = [3, 0, 0, 0, 0, 0, 0, 0]\<rparr>,
      linear_combination_b = \<lparr>variable_ids = [9], values_bytes = [7, 0, 0, 0, 0, 0, 0, 0]\<rparr>,
      linear_combination_c = \<lparr>variable_ids = [0], values_bytes = [1, 0, 0, 0, 0, 0, 0, 0]\<rparr>\<rparr>"

text \<open>An assignment message that names variable 4 twice and the constant one once.\<close>

definition example_assignment :: Variables where
  "example_assignment =
     \<lparr>variable_ids = [4, 0, 4],
      values_bytes = [7, 0, 0, 0, 0, 0, 0, 0, 9, 0, 0, 0, 0, 0, 0, 0, 8, 0, 0, 0, 0, 0, 0, 0]\<rparr>"

section \<open>Properties of loops\<close>

lemma for_loop_append:
  "for_loop (xs @ ys) body s =
     (case for_loop xs body s of Inl e \<Rightarrow> Inl e | Inr s' \<Rightarrow> for_loop ys body s')"
  by (induction xs arbitrary: s) (auto split: sum.splits)

lemma for_loop_Suc:
  "for_loop [0..<Suc n] body s =
     (case for_loop [0..<n] body s of Inl e \<Rightarrow> Inl e | Inr s' \<Rightarrow> body n s')"
  by (simp add: for_loop_append split: sum.splits)

lemma for_loop_cong:
  "(\<And>i s. i \<in> set xs \<Longrightarrow> f i s = g i s) \<Longrightarrow> for_loop xs f s = for_loop xs g s"
  by (induction xs arbitrary: s) (auto split: sum.splits)

section \<open>The element codec\<close>

lemma byte_pos: "m < 64 \<Longrightarrow> ((8::nat) * l + m div 8 = k) \<longleftrightarrow> (l = k div 8 \<and> m div 8 = k mod 8)"
  by (auto simp: less_mult_imp_div_less)

lemma byte_shift: "(m::nat) div 8 = k mod 8 \<Longrightarrow> k mod 8 * 8 \<le> m \<and> m - k mod 8 * 8 = m mod 8"
  by (metis add_diff_cancel_left' div_mult_mod_eq le_add1)

lemma byte_shift_conv: "k mod 8 * 8 \<le> m \<Longrightarrow> (m::nat) - k mod 8 * 8 < 8 \<Longrightarrow> m div 8 = k mod 8"
  by (metis div_mult_self4 div_less add.right_neutral le_add_diff_inverse mult.commute zero_neq_numeral)

lemma length_write_region [simp]: "length (write_region out off k f) = length out"
  by (simp add: write_region_def)

lemma nth_write_region:
  "j < length out \<Longrightarrow>
   write_region out off k f ! j = (if off \<le> j \<and> j < off + k then f (j - off) else out ! j)"
  by (simp add: write_region_def)

lemma write_region_0: "write_region out off 0 f = out"
  by (rule nth_equalityI) (auto simp add: nth_write_region)

lemma write_region_Suc:
  "off + k < length out \<Longrightarrow>
   (write_region out off k f)[off + k := f k] = write_region out off (Suc k) f"
  by (rule nth_equalityI) (auto simp: nth_write_region nth_list_update)

lemma into_le_loop:
  "k \<le> bytes_per_limb * length num \<Longrightarrow> off + k \<le> length out \<Longrightarrow>
   for_loop [0..<k] (into_le_body num off) out = Inr (write_region out off k (le_byte num))"
proof (induction k)
  case 0
  then show ?case by (simp add: write_region_0)
next
  case (Suc k)
  have lim: "k div bytes_per_limb < length num"
    using Suc.prems(1) by (simp add: bytes_per_limb_def less_mult_imp_div_less mult.commute)
  have "for_loop [0..<Suc k] (into_le_body num off) out =
        into_le_body num off k (write_region out off k (le_byte num))"
    using Suc by (simp add: for_loop_Suc del: upt_Suc)
  also have "\<dots> = Inr ((write_region out off k (le_byte num))[off + k := le_byte num k])"
    using Suc.prems lim by (simp add: into_le_body_def Let_def le_byte_def)
  finally show ?case using Suc.prems by (simp add: write_region_Suc)
qed

lemma into_le_ok:
  "sz = bytes_per_limb * length num \<Longrightarrow> off + sz \<le> length out \<Longrightarrow>
   into_le num out off sz = Inr (write_region out off sz (le_byte num))"
  by (simp add: into_le_def into_le_loop)

lemma bit_shifted_byte:
  "bit (push_bit (k mod 8 * 8) (ucast (b :: byte) :: limb)) m \<longleftrightarrow>
     m < 64 \<and> m div 8 = k mod 8 \<and> bit b (m mod 8)"
proof
  assume "bit (push_bit (k mod 8 * 8) (ucast b :: limb)) m"
  then have le: "k mod 8 * 8 \<le> m" and m: "m < 64" and b: "bit b (m - k mod 8 * 8)"
    by (simp_all add: bit_push_bit_iff bit_ucast_iff)
  from b have "m - k mod 8 * 8 < 8"
    using bit_imp_le_length [of b "m - k mod 8 * 8"] by simp
  with le have d: "m div 8 = k mod 8" by (rule byte_shift_conv)
  with b m show "m < 64 \<and> m div 8 = k mod 8 \<and> bit b (m mod 8)"
    using byte_shift [OF d] by simp
next
  assume a: "m < 64 \<and> m div 8 = k mod 8 \<and> bit b (m mod 8)"
  then have "k mod 8 * 8 \<le> m \<and> m - k mod 8 * 8 = m mod 8"
    using byte_shift [of m k] by simp
  with a show "bit (push_bit (k mod 8 * 8) (ucast b :: limb)) m"
    by (simp add: bit_push_bit_iff bit_ucast_iff)
qed

lemma le_limb_bit_Suc:
  "le_limb_bit buf off (Suc k) l m \<longleftrightarrow>
     le_limb_bit buf off k l m \<or>
     (l = k div 8 \<and> m < 64 \<and> m div 8 = k mod 8 \<and> bit (buf ! (off + k)) (m mod 8))"
proof (cases "m < 64")
  case True
  note pos = byte_pos [OF True, of l k]
  show ?thesis
  proof (cases "8 * l + m div 8 = k")
    case True
    with pos show ?thesis using \<open>m < 64\<close> by (simp add: le_limb_bit_def)
  next
    case False
    with pos show ?thesis by (auto simp add: le_limb_bit_def less_Suc_eq)
  qed
next
  case False
  then show ?thesis by (simp add: le_limb_bit_def)
qed

lemma from_le_step:
  assumes inv: "limbs_upto buf off k num" and k: "k div 8 < length num"
  shows "limbs_upto buf off (Suc k)
           (num[k div 8 := (num ! (k div 8)) OR
                 push_bit (k mod 8 * 8) (ucast (buf ! (off + k)) :: limb)])"
  unfolding limbs_upto_def
proof (intro allI impI)
  fix l m
  let ?new = "(num ! (k div 8)) OR push_bit (k mod 8 * 8) (ucast (buf ! (off + k)) :: limb)"
  assume "l < length (num[k div 8 := ?new])"
  then have l: "l < length num" by simp
  have old: "bit (num ! l) m = le_limb_bit buf off k l m"
    using inv l by (simp add: limbs_upto_def)
  show "bit (num[k div 8 := ?new] ! l) m = le_limb_bit buf off (Suc k) l m"
  proof (cases "l = k div 8")
    case True
    then have "bit (num[k div 8 := ?new] ! l) m \<longleftrightarrow>
        bit (num ! l) m \<or> bit (push_bit (k mod 8 * 8) (ucast (buf ! (off + k)) :: limb)) m"
      using l by (simp add: bit_or_iff)
    then show ?thesis using True old
      by (simp add: bit_shifted_byte le_limb_bit_Suc)
  next
    case False
    then show ?thesis using l old by (simp add: le_limb_bit_Suc)
  qed
qed

lemma limbs_upto_0: "limbs_upto buf off 0 (replicate n 0)"
  by (simp add: limbs_upto_def le_limb_bit_def)

lemma from_le_loop:
  "k \<le> 8 * n \<Longrightarrow> off + k \<le> length buf \<Longrightarrow>
   \<exists>num. for_loop [0..<k] (from_le_body buf off) (replicate n 0) = Inr num \<and>
         length num = n \<and> limbs_upto buf off k num"
proof (induction k)
  case 0
  then show ?case by (simp add: limbs_upto_0)
next
  case (Suc k)
  then obtain num where run: "for_loop [0..<k] (from_le_body buf off) (replicate n 0) = Inr num"
    and len: "length num = n" and inv: "limbs_upto buf off k num"
    by auto
  have lim: "k div 8 < length num"
    using Suc.prems(1) len by (simp add: less_mult_imp_div_less mult.commute)
  let ?num' = "num[k div 8 := (num ! (k div 8)) OR
                 push_bit (k mod 8 * 8) (ucast (buf ! (off + k)) :: limb)]"
  have "for_loop [0..<Suc k] (from_le_body buf off) (replicate n 0) = from_le_body buf off k num"
    using run by (simp add: for_loop_Suc del: upt_Suc)
  also have "\<dots> = Inr ?num'"
    using Suc.prems lim by (simp add: from_le_body_def Let_def bytes_per_limb_def)
  finally have "for_loop [0..<Suc k] (from_le_body buf off) (replicate n 0) = Inr ?num'" .
  moreover have "length ?num' = n" using len by simp
  moreover have "limbs_upto buf off (Suc k) ?num'" using inv lim by (rule from_le_step)
  ultimately show ?case by blast
qed

lemma bit_le_byte:
  "bit (le_byte num j) i \<longleftrightarrow> i < 8 \<and> bit (num ! (j div 8)) (j mod 8 * 8 + i)"
  by (simp add: le_byte_def bytes_per_limb_def bit_ucast_iff bit_drop_bit_eq)

lemma from_le_encoded:
  assumes fits: "off + 8 * length num \<le> length out"
  shows "from_le (length num) (write_region out off (8 * length num) (le_byte num)) off
           (8 * length num) = Inr num"
proof -
  let ?n = "length num"
  let ?w = "8 * ?n"
  let ?bytes = "write_region out off ?w (le_byte num)"
  obtain res where run: "for_loop [0..<?w] (from_le_body ?bytes off) (replicate ?n 0) = Inr res"
    and len: "length res = ?n" and inv: "limbs_upto ?bytes off ?w res"
    using from_le_loop [of ?w ?n off ?bytes] fits by auto
  have "res = num"
  proof (rule nth_equalityI)
    show "length res = length num" by (rule len)
  next
    fix l assume "l < length res"
    then have l: "l < ?n" using len by simp
    show "res ! l = num ! l"
    proof (rule bit_word_eqI)
      fix m assume "m < LENGTH(64)"
      then have m: "m < 64" by simp
      then have j: "8 * l + m div 8 < ?w" using l by simp
      have "bit (res ! l) m = le_limb_bit ?bytes off ?w l m"
        using inv l len by (simp add: limbs_upto_def)
      also have "\<dots> = bit (le_byte num (8 * l + m div 8)) (m mod 8)"
        using m j fits by (simp add: le_limb_bit_def nth_write_region)
      also have "\<dots> = bit (num ! l) m"
        using m by (simp add: bit_le_byte less_mult_imp_div_less mult.commute)
      finally show "bit (res ! l) m = bit (num ! l) m" .
    qed
  qed
  with run show ?thesis
    by (simp add: from_le_def bytes_per_limb_def)
qed

text \<open>
  Claim C4, as the code has it. Encoding a bigint at the byte width of its limbs,
  \<open>bytes_per_limb * r_limbs\<close> (the canonical width of the field: 32 bytes for four
  limbs), and decoding the bytes at that width gives the bigint back. The claim also
  speaks of greater widths: there \<open>into_le\<close> reads past the limbs and \<open>from_le\<close> refuses
  the size, as the next theorem shows for four limbs and 33 bytes.
\<close>

theorem decode_encode_canonical_width:
  "decode_encode num (bytes_per_limb * length num) = Inr num"
proof -
  have "into_le num (replicate (8 * length num) 0) 0 (8 * length num) =
          Inr (write_region (replicate (8 * length num) 0) 0 (8 * length num) (le_byte num))"
    by (rule into_le_ok) (simp_all add: bytes_per_limb_def)
  moreover have "from_le (length num)
      (write_region (replicate (8 * length num) 0) 0 (8 * length num) (le_byte num)) 0
      (8 * length num) = Inr num"
    by (rule from_le_encoded) simp
  ultimately show ?thesis
    by (simp add: decode_encode_def bytes_per_limb_def)
qed

theorem decode_encode_wider_counterexample:
  "decode_encode [0, 0, 0, 0] 33 = Inl OutOfBounds \<and>
   from_le 4 (replicate 33 0) 0 33 = Inl AssertionFailed"
  by code_simp

lemma write_region_full: "length out = k \<Longrightarrow> write_region out 0 k f = map f [0..<k]"
  by (rule nth_equalityI) (simp_all add: nth_write_region)

lemma from_le_ok:
  assumes "sz \<le> bytes_per_limb * n" and "off + sz \<le> length buf"
  shows "from_le n buf off sz = Inr (from_le_value n buf off sz) \<and>
         length (from_le_value n buf off sz) = n"
proof -
  obtain num where "for_loop [0..<sz] (from_le_body buf off) (replicate n 0) = Inr num"
    and "length num = n"
    using from_le_loop [of sz n off buf] assms by (auto simp: bytes_per_limb_def)
  with assms(1) show ?thesis
    by (simp add: from_le_value_def from_le_def)
qed

lemma from_le_body_chunk:
  assumes "byte < sz" and "off + sz \<le> length buf"
  shows "from_le_body buf off byte num = from_le_body (take sz (drop off buf)) 0 byte num"
  using assms by (simp add: from_le_body_def Let_def)

lemma from_le_chunk:
  assumes "off + sz \<le> length buf"
  shows "from_le n buf off sz = from_le n (take sz (drop off buf)) 0 sz"
proof -
  have "for_loop [0..<sz] (from_le_body buf off) (replicate n 0) =
        for_loop [0..<sz] (from_le_body (take sz (drop off buf)) 0) (replicate n 0)"
    by (rule for_loop_cong) (simp add: from_le_body_chunk assms)
  then show ?thesis by (simp add: from_le_def)
qed

lemma le_into_elements_loop:
  assumes sz: "sz \<le> bytes_per_limb * r_limbs P" and fits: "off + sz * n \<le> length buf"
  shows "k \<le> n \<Longrightarrow>
     for_loop [0..<k] (le_into_elements_body P buf off sz) (replicate n (FieldT_zero P)) =
       Inr (write_region (replicate n (FieldT_zero P)) 0 k
              (\<lambda>i. FieldT P (from_le_value (r_limbs P) buf (off + sz * i) sz)))"
proof (induction k)
  case 0
  then show ?case by (simp add: write_region_0)
next
  case (Suc k)
  let ?f = "\<lambda>i. FieldT P (from_le_value (r_limbs P) buf (off + sz * i) sz)"
  let ?st = "write_region (replicate n (FieldT_zero P)) 0 k ?f"
  have "sz * Suc k \<le> sz * n"
    using Suc.prems by (rule mult_le_mono2)
  then have "off + sz * k + sz \<le> length buf" using fits by simp
  then have dec: "from_le (r_limbs P) buf (off + sz * k) sz =
      Inr (from_le_value (r_limbs P) buf (off + sz * k) sz)"
    using from_le_ok [OF sz, of "off + sz * k" buf] by simp
  have "for_loop [0..<Suc k] (le_into_elements_body P buf off sz) (replicate n (FieldT_zero P)) =
        le_into_elements_body P buf off sz k ?st"
    using Suc by (simp add: for_loop_Suc del: upt_Suc)
  also have "\<dots> = Inr (?st[0 + k := ?f k])"
    using dec by (simp add: le_into_elements_body_def)
  also have "\<dots> = Inr (write_region (replicate n (FieldT_zero P)) 0 (Suc k) ?f)"
    using Suc.prems write_region_Suc [of 0 k "replicate n (FieldT_zero P)" ?f] by simp
  finally show ?case .
qed

lemma le_into_elements_ok:
  assumes "sz \<le> bytes_per_limb * r_limbs P" and "off + sz * n \<le> length buf"
  shows "le_into_elements P buf off n sz =
           Inr (map (\<lambda>i. FieldT P (from_le_value (r_limbs P) buf (off + sz * i) sz)) [0..<n])"
  using le_into_elements_loop [OF assms, of n]
  by (simp add: le_into_elements_def write_region_full)

lemma deserialize_elements_ok:
  assumes "0 < n" and "length b div n \<le> bytes_per_limb * r_limbs P"
  shows "deserialize_elements P b n =
           Inr (map (\<lambda>i. FieldT P (from_le_value (r_limbs P) b (length b div n * i) (length b div n)))
                  [0..<n])"
proof -
  have "length b div n * n \<le> length b" by simp
  then show ?thesis
    using assms le_into_elements_ok [of "length b div n" P 0 n b]
    by (simp add: deserialize_elements_def Let_def)
qed

lemma from_le_value_chunk:
  "off + sz \<le> length buf \<Longrightarrow>
   from_le_value n buf off sz = from_le_value n (take sz (drop off buf)) 0 sz"
  by (simp add: from_le_value_def from_le_chunk [of off sz buf])

lemma chunk_of_truncated:
  assumes "i < n"
  shows "take sz (drop (sz * i) (take (sz * n) b)) = take sz (drop (sz * i) b)"
proof -
  have "sz * Suc i \<le> sz * n" using assms by (intro mult_le_mono2) simp
  then have "sz \<le> sz * n - sz * i" by simp
  then show ?thesis by (simp add: drop_take min_absorb1)
qed

lemma deserialize_elements_truncated:
  assumes n: "0 < n" and cap: "length b div n \<le> bytes_per_limb * r_limbs P"
  shows "deserialize_elements P (take (length b div n * n) b) n = deserialize_elements P b n"
proof -
  let ?s = "length b div n"
  let ?t = "take (?s * n) b"
  have le: "?s * n \<le> length b" by simp
  then have len: "length ?t = ?s * n" by simp
  then have quot: "length ?t div n = ?s" using n by simp
  have "from_le_value (r_limbs P) ?t (?s * i) ?s = from_le_value (r_limbs P) b (?s * i) ?s"
    if i: "i < n" for i
  proof -
    have "?s * Suc i \<le> ?s * n" using i by (intro mult_le_mono2) simp
    then have fit: "?s * i + ?s \<le> ?s * n" by simp
    then have "?s * i + ?s \<le> length b" using le by linarith
    then have "from_le_value (r_limbs P) b (?s * i) ?s =
               from_le_value (r_limbs P) (take ?s (drop (?s * i) b)) 0 ?s"
      by (rule from_le_value_chunk)
    moreover have "from_le_value (r_limbs P) ?t (?s * i) ?s =
               from_le_value (r_limbs P) (take ?s (drop (?s * i) ?t)) 0 ?s"
      using fit len by (intro from_le_value_chunk) simp
    ultimately show ?thesis using chunk_of_truncated [OF i, of ?s b] by simp
  qed
  then have "map (\<lambda>i. FieldT P (from_le_value (r_limbs P) ?t (?s * i) ?s)) [0..<n] =
             map (\<lambda>i. FieldT P (from_le_value (r_limbs P) b (?s * i) ?s)) [0..<n]"
    by simp
  moreover have "deserialize_elements P ?t n =
      Inr (map (\<lambda>i. FieldT P (from_le_value (r_limbs P) ?t (?s * i) ?s)) [0..<n])"
    using deserialize_elements_ok [OF n, of ?t P] cap quot by simp
  ultimately show ?thesis
    using deserialize_elements_ok [OF n cap] by simp
qed

text \<open>
  Claim C3, as the code has it. \<open>deserialize_elements\<close> takes the integer quotient of
  the byte length by the count as the element size and checks nothing: for a count
  above zero and an element size that the limbs can hold it returns that many
  elements, whether or not the division is exact, and the bytes after the last whole
  element play no part, since the buffer cut to \<open>count * element_size\<close> bytes decodes to
  the same elements. No error for malformed input exists in the code: three bytes for
  two elements are accepted, as the concrete run below shows.
\<close>

theorem deserialize_elements_inexact:
  assumes "0 < n" and "length b div n \<le> bytes_per_limb * r_limbs P"
  shows "\<exists>es. deserialize_elements P b n = Inr es \<and> length es = n \<and>
           deserialize_elements P (take (length b div n * n) b) n = Inr es"
  using deserialize_elements_ok [OF assms] deserialize_elements_truncated [OF assms]
  by simp

theorem deserialize_elements_inexact_witness:
  "0 < (2::nat) \<and> length [1, 2, 3 :: byte] div 2 \<le> bytes_per_limb * r_limbs (bigint_params 1) \<and>
   (\<exists>es. deserialize_elements (bigint_params 1) [1, 2, 3] 2 = Inr es \<and> length es = 2 \<and>
      deserialize_elements (bigint_params 1) (take (length [1, 2, 3 :: byte] div 2 * 2) [1, 2, 3]) 2 = Inr es)"
proof -
  have h1: "0 < (2::nat)" by simp
  have h2: "length [1, 2, 3 :: byte] div 2 \<le> bytes_per_limb * r_limbs (bigint_params 1)"
    by (simp add: bytes_per_limb_def bigint_params_def)
  show ?thesis using h1 h2 deserialize_elements_inexact [OF h1 h2] by blast
qed

theorem deserialize_elements_inexact_counterexample:
  "deserialize_elements (bigint_params 1) [1, 2, 3] 2 = Inr [[1], [2]]"
  by code_simp

text \<open>
  Claim C9, as the code has it. A count of zero is a division by zero. For a count
  \<open>n\<close> above zero whose element size \<open>length b div n\<close> is at most the byte capacity of the
  limbs, \<open>deserialize_elements\<close> returns \<open>n\<close> elements, element \<open>i\<close> being the field
  element of the bigint decoded from the chunk of that size at offset \<open>i\<close> times the
  size; the \<open>length b mod n\<close> bytes after the chunks are never read. The bound on the
  element size is needed: \<open>from_le\<close> asserts it, and one element of 33 bytes fails
  the assertion for four limbs, as the last theorem shows.
\<close>

theorem deserialize_elements_chunks:
  "deserialize_elements P b 0 = Inl DivisionByZero \<and>
   (0 < n \<and> length b div n \<le> bytes_per_limb * r_limbs P \<longrightarrow>
     (\<exists>es. deserialize_elements P b n = Inr es \<and> length es = n \<and>
        (\<forall>i<n. \<exists>num.
           from_le (r_limbs P) (take (length b div n) (drop (i * (length b div n)) b)) 0
             (length b div n) = Inr num \<and>
           es ! i = FieldT P num)))"
proof (intro conjI impI)
  show "deserialize_elements P b 0 = Inl DivisionByZero"
    by (simp add: deserialize_elements_def)
next
  assume a: "0 < n \<and> length b div n \<le> bytes_per_limb * r_limbs P"
  let ?s = "length b div n"
  let ?es = "map (\<lambda>i. FieldT P (from_le_value (r_limbs P) b (?s * i) ?s)) [0..<n]"
  have run: "deserialize_elements P b n = Inr ?es"
    using a deserialize_elements_ok [of n b P] by simp
  have "\<exists>num. from_le (r_limbs P) (take ?s (drop (i * ?s) b)) 0 ?s = Inr num \<and>
          ?es ! i = FieldT P num" if i: "i < n" for i
  proof -
    have "?s * Suc i \<le> ?s * n" using i by (intro mult_le_mono2) simp
    then have "?s * i + ?s \<le> ?s * n" by simp
    moreover have "?s * n \<le> length b" by simp
    ultimately have fit: "?s * i + ?s \<le> length b" by (rule order_trans)
    have "from_le (r_limbs P) b (?s * i) ?s = Inr (from_le_value (r_limbs P) b (?s * i) ?s)"
      using from_le_ok [of ?s "r_limbs P" "?s * i" b] a fit by simp
    then have "from_le (r_limbs P) (take ?s (drop (i * ?s) b)) 0 ?s =
               Inr (from_le_value (r_limbs P) b (?s * i) ?s)"
      using from_le_chunk [OF fit, of "r_limbs P"] by (simp add: mult.commute)
    then show ?thesis using i by simp
  qed
  with run show "\<exists>es. deserialize_elements P b n = Inr es \<and> length es = n \<and>
        (\<forall>i<n. \<exists>num.
           from_le (r_limbs P) (take ?s (drop (i * ?s) b)) 0 ?s = Inr num \<and>
           es ! i = FieldT P num)"
    by simp
qed

theorem deserialize_elements_chunks_witness:
  "deserialize_elements (bigint_params 1) [1, 2, 3] 0 = Inl DivisionByZero \<and>
   0 < (2::nat) \<and> length [1, 2, 3 :: byte] div 2 \<le> bytes_per_limb * r_limbs (bigint_params 1) \<and>
   (\<exists>es. deserialize_elements (bigint_params 1) [1, 2, 3] 2 = Inr es \<and> length es = 2)"
proof -
  have h: "0 < (2::nat) \<and>
      length [1, 2, 3 :: byte] div 2 \<le> bytes_per_limb * r_limbs (bigint_params 1)"
    by (simp add: bytes_per_limb_def bigint_params_def)
  show ?thesis
    using h deserialize_elements_chunks [of "bigint_params 1" "[1, 2, 3]" 2] by blast
qed

theorem deserialize_elements_chunks_counterexample:
  "deserialize_elements (bigint_params 4) (replicate 33 0) 1 = Inl AssertionFailed"
  by code_simp

lemma write_region_next_chunk:
  assumes "w * k + w \<le> length buf"
  shows "write_region (write_region buf 0 (w * k) (packed_byte w g)) (w * k) w (le_byte (g k)) =
         write_region buf 0 (w * Suc k) (packed_byte w g)"
proof (rule nth_equalityI)
  show "length (write_region (write_region buf 0 (w * k) (packed_byte w g)) (w * k) w (le_byte (g k))) =
        length (write_region buf 0 (w * Suc k) (packed_byte w g))" by simp
next
  fix j assume "j < length (write_region (write_region buf 0 (w * k) (packed_byte w g)) (w * k) w (le_byte (g k)))"
  then have j: "j < length buf" by simp
  show "write_region (write_region buf 0 (w * k) (packed_byte w g)) (w * k) w (le_byte (g k)) ! j =
        write_region buf 0 (w * Suc k) (packed_byte w g) ! j"
  proof (cases "w * k \<le> j \<and> j < w * k + w")
    case True
    then obtain d where d: "j = w * k + d" "d < w"
      by (metis le_Suc_ex nat_add_left_cancel_less)
    then have "j div w = k" "j mod w = d" by simp_all
    then show ?thesis using True j d by (simp add: nth_write_region packed_byte_def)
  next
    case False
    then show ?thesis using j by (auto simp: nth_write_region)
  qed
qed

lemma pack_loop:
  assumes w: "w = bytes_per_limb * r" and len: "\<And>i. i < n \<Longrightarrow> length (g i) = r"
    and ids: "length ids = n" and buf: "length buf = w * n"
  shows "k \<le> n \<Longrightarrow>
     for_loop [0..<k] (pack_body w f g) (ids, buf) =
       Inr (write_region ids 0 k f, write_region buf 0 (w * k) (packed_byte w g))"
proof (induction k)
  case 0
  then show ?case by (simp add: write_region_0)
next
  case (Suc k)
  let ?ids = "write_region ids 0 k f"
  let ?buf = "write_region buf 0 (w * k) (packed_byte w g)"
  have "w * Suc k \<le> w * n" using Suc.prems by (rule mult_le_mono2)
  then have fit: "w * k + w \<le> length buf" using buf by simp
  have enc: "into_le (g k) ?buf (w * k) w = Inr (write_region ?buf (w * k) w (le_byte (g k)))"
    using fit len [of k] Suc.prems w by (intro into_le_ok) simp_all
  have "for_loop [0..<Suc k] (pack_body w f g) (ids, buf) = pack_body w f g k (?ids, ?buf)"
    using Suc by (simp add: for_loop_Suc del: upt_Suc)
  also have "\<dots> = Inr (?ids[0 + k := f k], write_region ?buf (w * k) w (le_byte (g k)))"
    using enc by (simp add: pack_body_def)
  also have "\<dots> = Inr (write_region ids 0 (Suc k) f,
                         write_region buf 0 (w * Suc k) (packed_byte w g))"
    using Suc.prems ids write_region_Suc [of 0 k ids f] write_region_next_chunk [OF fit, of g]
    by simp
  finally show ?case .
qed

lemma pack_loop_full:
  assumes "w = bytes_per_limb * r" and "\<And>i. i < n \<Longrightarrow> length (g i) = r"
  shows "for_loop [0..<n] (pack_body w f g) (replicate n 0, replicate (w * n) 0) =
           Inr (map f [0..<n], map (packed_byte w g) [0..<w * n])"
  using pack_loop [OF assms, where ids = "replicate n 0" and buf = "replicate (w * n) 0"
      and k = n and f = f]
  by (simp add: write_region_full)

lemma packed_concat:
  assumes "\<And>i. i < n \<Longrightarrow> w = bytes_per_limb * length (g i)"
  shows "map (packed_byte w g) [0..<w * n] = concat (map (\<lambda>i. le_bytes (g i)) [0..<n])"
  using assms
proof (induction n)
  case 0
  then show ?case by simp
next
  case (Suc n)
  have w: "w = bytes_per_limb * length (g n)" using Suc.prems by simp
  have e: "w * Suc n = w * n + w" by simp
  have split: "[0..<w * n + w] = [0..<w * n] @ [w * n..<w * n + w]"
    using upt_add_eq_append [of 0 "w * n" w] by simp
  have chunk: "map (packed_byte w g) [w * n..<w * n + w] = le_bytes (g n)"
  proof (rule nth_equalityI)
    show "length (map (packed_byte w g) [w * n..<w * n + w]) = length (le_bytes (g n))"
      using w by (simp add: le_bytes_def)
    fix j assume "j < length (map (packed_byte w g) [w * n..<w * n + w])"
    then have j: "j < w" by simp
    then have pos: "(w * n + j) div w = n" "(w * n + j) mod w = j" by simp_all
    have "map (packed_byte w g) [w * n..<w * n + w] ! j = packed_byte w g (w * n + j)"
      using j by simp
    also have "\<dots> = le_byte (g n) j" by (simp only: packed_byte_def pos)
    also have "\<dots> = le_bytes (g n) ! j" using j unfolding w by (simp add: le_bytes_def)
    finally show "map (packed_byte w g) [w * n..<w * n + w] ! j = le_bytes (g n) ! j" .
  qed
  have IH: "map (packed_byte w g) [0..<w * n] = concat (map (\<lambda>i. le_bytes (g i)) [0..<n])"
    using Suc by simp
  have "map (packed_byte w g) [0..<w * Suc n] =
        map (packed_byte w g) [0..<w * n] @ map (packed_byte w g) [w * n..<w * n + w]"
    unfolding e split by (rule map_append)
  then show ?case
    unfolding IH chunk by simp
qed

lemma make_lc_ok:
  assumes w: "fieldt_size P = bytes_per_limb * r_limbs P"
    and len: "\<And>t. t \<in> set terms \<Longrightarrow> length (as_bigint P (coeff t)) = r_limbs P"
  shows "make_lc P circuit terms = Inr (wire_lc P circuit terms)"
proof -
  let ?n = "length terms"
  let ?w = "fieldt_size P"
  let ?f = "\<lambda>i. convert_variable_id circuit (index (terms ! i))"
  let ?g = "\<lambda>i. as_bigint P (coeff (terms ! i))"
  have g: "length (?g i) = r_limbs P" if "i < ?n" for i
    using that len by simp
  have body: "make_lc_body P circuit terms i st = pack_body ?w ?f ?g i st" for i st
    by (cases st) (simp add: make_lc_body_def pack_body_def Let_def)
  have "for_loop [0..<?n] (make_lc_body P circuit terms)
               (replicate ?n 0, replicate (?w * ?n) 0) =
        for_loop [0..<?n] (pack_body ?w ?f ?g) (replicate ?n 0, replicate (?w * ?n) 0)"
    by (rule for_loop_cong) (rule body)
  also have "\<dots> = Inr (map ?f [0..<?n], map (packed_byte ?w ?g) [0..<?w * ?n])"
    using g by (intro pack_loop_full [OF w]) 
  finally have run: "for_loop [0..<?n] (make_lc_body P circuit terms)
               (replicate ?n 0, replicate (?w * ?n) 0) =
        Inr (map ?f [0..<?n], map (packed_byte ?w ?g) [0..<?w * ?n])" .
  have ids: "map ?f [0..<?n] = map (\<lambda>t. convert_variable_id circuit (index t)) terms"
    by (rule nth_equalityI) simp_all
  have "map (packed_byte ?w ?g) [0..<?w * ?n] = concat (map (\<lambda>i. le_bytes (?g i)) [0..<?n])"
    using g w by (intro packed_concat) simp
  moreover have "map (\<lambda>i. le_bytes (?g i)) [0..<?n] =
      map (\<lambda>t. le_bytes (as_bigint P (coeff t))) terms"
    by (rule nth_equalityI) simp_all
  ultimately have bytes: "map (packed_byte ?w ?g) [0..<?w * ?n] =
      concat (map (\<lambda>t. le_bytes (as_bigint P (coeff t))) terms)"
    by simp
  show ?thesis
    unfolding make_lc_def run ids bytes by (simp add: wire_lc_def)
qed

lemma serialize_constraint_ok:
  assumes w: "fieldt_size P = bytes_per_limb * r_limbs P" and fit: "coeffs_fit P c"
  shows "serialize_constraint P circuit c = Inr (wire_constraint P circuit c)"
proof -
  have "make_lc P circuit (lc_a c) = Inr (wire_lc P circuit (lc_a c))"
    using fit by (intro make_lc_ok [OF w]) (simp add: coeffs_fit_def)
  moreover have "make_lc P circuit (lc_b c) = Inr (wire_lc P circuit (lc_b c))"
    using fit by (intro make_lc_ok [OF w]) (simp add: coeffs_fit_def)
  moreover have "make_lc P circuit (lc_c c) = Inr (wire_lc P circuit (lc_c c))"
    using fit by (intro make_lc_ok [OF w]) (simp add: coeffs_fit_def)
  ultimately show ?thesis
    by (simp add: serialize_constraint_def wire_constraint_def)
qed

lemma serialize_constraints_loop_ok:
  assumes w: "fieldt_size P = bytes_per_limb * r_limbs P"
  shows "(\<And>c. c \<in> set cs \<Longrightarrow> coeffs_fit P c) \<Longrightarrow>
     serialize_constraints_loop P circuit cs fb = Inr (fb @ map (wire_constraint P circuit) cs)"
proof (induction cs arbitrary: fb)
  case Nil
  then show ?case by simp
next
  case (Cons c cs)
  have "serialize_constraint P circuit c = Inr (wire_constraint P circuit c)"
    using Cons.prems by (intro serialize_constraint_ok [OF w]) simp
  moreover have "serialize_constraints_loop P circuit cs (fb @ [wire_constraint P circuit c]) =
      Inr ((fb @ [wire_constraint P circuit c]) @ map (wire_constraint P circuit) cs)"
    using Cons.prems by (intro Cons.IH) simp
  ultimately show ?case by simp
qed

text \<open>
  Claim C8. \<open>serialize_protoboard_constraints\<close> emits exactly one wire constraint for
  each constraint of the protoboard, in the order of the constraint system and with
  repeated constraints repeated; in each of the three linear combinations the ids are
  the converted indices of the terms and the values the encoded coefficients, term by
  term in their order. The encoded width is the width of the limbs, as the header has
  it.
\<close>

theorem serialize_protoboard_constraints_one_to_one:
  assumes "fieldt_size P = bytes_per_limb * r_limbs P"
    and "\<forall>c \<in> set (constraints pb). coeffs_fit P c"
  shows "serialize_protoboard_constraints P circuit pb =
           Inr (Message_ConstraintSystem (map (wire_constraint P circuit) (constraints pb)))"
  using serialize_constraints_loop_ok [OF assms(1), of "constraints pb" circuit "[]"] assms(2)
  by (simp add: serialize_protoboard_constraints_def)

lemma local_assignment_ok:
  assumes shared: "length (variable_ids (connections circuit)) + num_outputs \<le> num_variables pb"
    and w: "fieldt_size P = bytes_per_limb * r_limbs P"
    and len: "\<forall>x \<in> set (pb_values pb). length (as_bigint P x) = r_limbs P"
  shows "serialize_protoboard_local_assignment P circuit num_outputs pb =
           Inr (Message_Witness
             \<lparr>variable_ids = map (\<lambda>j. free_variable_id circuit + of_nat j)
                [0..<num_variables pb - (length (variable_ids (connections circuit)) + num_outputs)],
              values_bytes = concat (map
                (\<lambda>j. le_bytes (as_bigint P (full_assignment pb !
                        (1 + length (variable_ids (connections circuit)) + num_outputs + j))))
                [0..<num_variables pb - (length (variable_ids (connections circuit)) + num_outputs)])\<rparr>)"
proof -
  let ?s = "length (variable_ids (connections circuit)) + num_outputs"
  let ?n = "num_variables pb - ?s"
  let ?w = "fieldt_size P"
  let ?f = "\<lambda>j. free_variable_id circuit + (of_nat j :: u64)"
  let ?g = "\<lambda>j. as_bigint P (pb_values pb ! (?s + j))"
  have g: "length (?g j) = r_limbs P" if "j < ?n" for j
  proof -
    have "?s + j < length (pb_values pb)" using that by (simp add: num_variables_def)
    then show ?thesis using len by simp
  qed
  have body: "local_assignment_body P pb (free_variable_id circuit) ?s j st = pack_body ?w ?f ?g j st"
    if "j \<in> set [0..<?n]" for j st
  proof -
    have "?s + j < length (pb_values pb)" using that by (simp add: num_variables_def)
    then have "val pb (1 + ?s + j) = Inr (pb_values pb ! (?s + j))"
      by (simp add: val_def)
    then show ?thesis
      by (cases st) (simp add: local_assignment_body_def pack_body_def Let_def)
  qed
  have "for_loop [0..<?n] (local_assignment_body P pb (free_variable_id circuit) ?s)
               (replicate ?n 0, replicate (?w * ?n) 0) =
        for_loop [0..<?n] (pack_body ?w ?f ?g) (replicate ?n 0, replicate (?w * ?n) 0)"
    by (rule for_loop_cong) (rule body)
  also have "\<dots> = Inr (map ?f [0..<?n], map (packed_byte ?w ?g) [0..<?w * ?n])"
    using g by (intro pack_loop_full [OF w])
  finally have run: "for_loop [0..<?n] (local_assignment_body P pb (free_variable_id circuit) ?s)
               (replicate ?n 0, replicate (?w * ?n) 0) =
        Inr (map ?f [0..<?n], map (packed_byte ?w ?g) [0..<?w * ?n])" .
  have bytes: "map (packed_byte ?w ?g) [0..<?w * ?n] = concat (map (\<lambda>j. le_bytes (?g j)) [0..<?n])"
    using g w by (intro packed_concat) simp
  have fa: "full_assignment pb ! (1 + length (variable_ids (connections circuit)) + num_outputs + j) =
      pb_values pb ! (?s + j)" for j
    by (simp add: full_assignment_def)
  have "\<not> num_variables pb < ?s" using shared by simp
  then show ?thesis
    unfolding serialize_protoboard_local_assignment_def Let_def run bytes fa by simp
qed

text \<open>
  Claim C7. With \<open>K\<close> connections and \<open>L\<close> outputs among the variables of the
  protoboard and free id \<open>F\<close>, \<open>serialize_protoboard_local_assignment\<close> exports one
  entry for each of the remaining variables and nothing else: at local offset \<open>j\<close> the
  id \<open>F + j\<close> and the encoded value of the full assignment at index \<open>1 + K + L + j\<close>.
\<close>

theorem serialize_protoboard_local_assignment_entries:
  assumes "length (variable_ids (connections circuit)) + num_outputs \<le> num_variables pb"
    and "fieldt_size P = bytes_per_limb * r_limbs P"
    and "\<forall>x \<in> set (pb_values pb). length (as_bigint P x) = r_limbs P"
  shows "serialize_protoboard_local_assignment P circuit num_outputs pb =
           Inr (Message_Witness
             \<lparr>variable_ids = map (\<lambda>j. free_variable_id circuit + of_nat j)
                [0..<num_variables pb - (length (variable_ids (connections circuit)) + num_outputs)],
              values_bytes = concat (map
                (\<lambda>j. le_bytes (as_bigint P (full_assignment pb !
                        (1 + length (variable_ids (connections circuit)) + num_outputs + j))))
                [0..<num_variables pb - (length (variable_ids (connections circuit)) + num_outputs)])\<rparr>)"
  using assms by (rule local_assignment_ok)

theorem serialize_protoboard_local_assignment_entries_witness:
  "length (variable_ids (connections example_circuit)) + 1 \<le> num_variables example_pb \<and>
   fieldt_size (bigint_params 1) = bytes_per_limb * r_limbs (bigint_params 1) \<and>
   serialize_protoboard_local_assignment (bigint_params 1) example_circuit 1 example_pb =
     Inr (Message_Witness \<lparr>variable_ids = [100], values_bytes = le_bytes [42]\<rparr>)"
proof -
  have h1: "length (variable_ids (connections example_circuit)) + 1 \<le> num_variables example_pb"
    by (simp add: example_circuit_def example_pb_def num_variables_def)
  have h2: "fieldt_size (bigint_params 1) = bytes_per_limb * r_limbs (bigint_params 1)"
    by (simp add: bigint_params_def bytes_per_limb_def)
  have h3: "\<forall>x \<in> set (pb_values example_pb).
      length (as_bigint (bigint_params 1) x) = r_limbs (bigint_params 1)"
    by (simp add: bigint_params_def example_pb_def)
  have n: "num_variables example_pb - (length (variable_ids (connections example_circuit)) + 1) = 1"
    by (simp add: example_circuit_def example_pb_def num_variables_def)
  have run: "serialize_protoboard_local_assignment (bigint_params 1) example_circuit 1 example_pb =
     Inr (Message_Witness \<lparr>variable_ids = [100], values_bytes = le_bytes [42]\<rparr>)"
    using serialize_protoboard_local_assignment_entries [OF h1 h2 h3]
    unfolding n
    by (simp add: example_circuit_def example_pb_def full_assignment_def bigint_params_def)
  from h1 h2 run show ?thesis by (intro conjI)
qed

theorem serialize_protoboard_constraints_one_to_one_witness:
  "fieldt_size (bigint_params 1) = bytes_per_limb * r_limbs (bigint_params 1) \<and>
   serialize_protoboard_constraints (bigint_params 1) example_circuit example_pb =
     Inr (Message_ConstraintSystem
       [\<lparr>linear_combination_a = \<lparr>variable_ids = [5], values_bytes = le_bytes [3]\<rparr>,
         linear_combination_b = \<lparr>variable_ids = [9], values_bytes = le_bytes [7]\<rparr>,
         linear_combination_c = \<lparr>variable_ids = [], values_bytes = []\<rparr>\<rparr>])"
proof -
  have h1: "fieldt_size (bigint_params 1) = bytes_per_limb * r_limbs (bigint_params 1)"
    by (simp add: bigint_params_def bytes_per_limb_def)
  have h2: "\<forall>c \<in> set (constraints example_pb). coeffs_fit (bigint_params 1) c"
    by (simp add: bigint_params_def example_pb_def coeffs_fit_def)
  have ev: "map (wire_constraint (bigint_params 1) example_circuit) (constraints example_pb) =
      [\<lparr>linear_combination_a = \<lparr>variable_ids = [5], values_bytes = le_bytes [3]\<rparr>,
        linear_combination_b = \<lparr>variable_ids = [9], values_bytes = le_bytes [7]\<rparr>,
        linear_combination_c = \<lparr>variable_ids = [], values_bytes = []\<rparr>\<rparr>]"
    by (simp add: example_circuit_def example_pb_def bigint_params_def wire_constraint_def
        wire_lc_def convert_variable_id_def)
  have run: "serialize_protoboard_constraints (bigint_params 1) example_circuit example_pb =
     Inr (Message_ConstraintSystem
       [\<lparr>linear_combination_a = \<lparr>variable_ids = [5], values_bytes = le_bytes [3]\<rparr>,
         linear_combination_b = \<lparr>variable_ids = [9], values_bytes = le_bytes [7]\<rparr>,
         linear_combination_c = \<lparr>variable_ids = [], values_bytes = []\<rparr>\<rparr>])"
    using serialize_protoboard_constraints_one_to_one [OF h1 h2, of example_circuit]
    unfolding ev .
  from h1 run show ?thesis by (intro conjI)
qed

text \<open>
  Claim C5. \<open>convert_variable_id\<close> sends index 0 to wire id 0, an index from 1 to the
  number \<open>K\<close> of connection ids to the connection id at that position, and an index
  from the boundary \<open>K + 1\<close> on, the first index after the connections, to the free id
  plus the distance of the index from that boundary.
\<close>

theorem convert_variable_id_ranges:
  "convert_variable_id circuit 0 = 0 \<and>
   (1 \<le> unat i \<and> unat i \<le> length (variable_ids (connections circuit)) \<longrightarrow>
      convert_variable_id circuit i = variable_ids (connections circuit) ! (unat i - 1)) \<and>
   (length (variable_ids (connections circuit)) < unat i \<longrightarrow>
      convert_variable_id circuit i =
        free_variable_id circuit + of_nat (unat i - (length (variable_ids (connections circuit)) + 1)))"
proof (intro conjI impI)
  show "convert_variable_id circuit 0 = 0" by (simp add: convert_variable_id_def)
next
  assume a: "1 \<le> unat i \<and> unat i \<le> length (variable_ids (connections circuit))"
  then have "i \<noteq> 0" by auto
  then have "unat (i - 1) = unat i - 1" by (rule unat_minus_one)
  moreover have "unat i - 1 < length (variable_ids (connections circuit))" using a by arith
  ultimately show "convert_variable_id circuit i =
      variable_ids (connections circuit) ! (unat i - 1)"
    using \<open>i \<noteq> 0\<close> by (simp add: convert_variable_id_def Let_def)
next
  let ?K = "length (variable_ids (connections circuit))"
  assume a: "?K < unat i"
  then have nz: "i \<noteq> 0" by auto
  then have m1: "unat (i - 1) = unat i - 1" by (rule unat_minus_one)
  have "of_nat (unat i - (?K + 1)) = (of_nat (unat i) :: u64) - of_nat (?K + 1)"
    using a by (intro of_nat_diff) simp
  then have "i - 1 - of_nat ?K = (of_nat (unat i - (?K + 1)) :: u64)" by simp
  moreover have "\<not> unat i - 1 < ?K" using a by arith
  ultimately show "convert_variable_id circuit i =
      free_variable_id circuit + of_nat (unat i - (?K + 1))"
    using nz m1 by (simp add: convert_variable_id_def Let_def)
qed

theorem convert_variable_id_ranges_witness:
  "convert_variable_id example_circuit 0 = 0 \<and>
   convert_variable_id example_circuit 2 = 9 \<and>
   convert_variable_id example_circuit 4 = 101"
  using convert_variable_id_ranges [of example_circuit 2]
    convert_variable_id_ranges [of example_circuit 4]
  by (simp add: example_circuit_def)

text \<open>
  Claim C10. For every index above the number \<open>K\<close> of connection ids,
  \<open>convert_variable_id\<close> returns the free id plus \<open>index - 1 - K\<close>; the number of outputs
  is no argument of it and the branch for outputs is absent. So the index \<open>K + 1 + m\<close>
  of output \<open>m\<close>, for \<open>m\<close> below the number \<open>L\<close> of outputs, gets the wire id that
  \<open>serialize_protoboard_local_assignment\<close> gives to local variable \<open>m\<close>.
\<close>

theorem convert_variable_id_outputs_as_locals:
  "(length (variable_ids (connections circuit)) < unat i \<longrightarrow>
      convert_variable_id circuit i =
        free_variable_id circuit + (i - 1 - of_nat (length (variable_ids (connections circuit))))) \<and>
   (length (variable_ids (connections circuit)) + L \<le> num_variables pb \<and>
    fieldt_size P = bytes_per_limb * r_limbs P \<and>
    (\<forall>x \<in> set (pb_values pb). length (as_bigint P x) = r_limbs P) \<and>
    m < L \<and> m < num_variables pb - (length (variable_ids (connections circuit)) + L) \<and>
    length (variable_ids (connections circuit)) + 1 + m < 2 ^ 64 \<longrightarrow>
      (\<exists>vars. serialize_protoboard_local_assignment P circuit L pb = Inr (Message_Witness vars) \<and>
         convert_variable_id circuit (of_nat (length (variable_ids (connections circuit)) + 1 + m)) =
           variable_ids vars ! m))"
proof (intro conjI impI)
  let ?K = "length (variable_ids (connections circuit))"
  assume a: "?K < unat i"
  then have nz: "i \<noteq> 0" by auto
  then have "unat (i - 1) = unat i - 1" by (rule unat_minus_one)
  moreover have "\<not> unat i - 1 < ?K" using a by arith
  ultimately show "convert_variable_id circuit i = free_variable_id circuit + (i - 1 - of_nat ?K)"
    using nz by (simp add: convert_variable_id_def Let_def)
next
  let ?K = "length (variable_ids (connections circuit))"
  let ?i = "of_nat (?K + 1 + m) :: u64"
  assume a: "?K + L \<le> num_variables pb \<and>
    fieldt_size P = bytes_per_limb * r_limbs P \<and>
    (\<forall>x \<in> set (pb_values pb). length (as_bigint P x) = r_limbs P) \<and>
    m < L \<and> m < num_variables pb - (?K + L) \<and> ?K + 1 + m < 2 ^ 64"
  then have u: "unat ?i = ?K + 1 + m"
    by (simp add: unat_of_nat del: of_nat_add of_nat_Suc)
  then have nz: "?i \<noteq> 0" by (metis add_is_0 unat_0 zero_neq_one)
  then have "unat (?i - 1) = unat ?i - 1" by (rule unat_minus_one)
  with u have "\<not> unat (?i - 1) < ?K" by simp
  then have conv: "convert_variable_id circuit ?i = free_variable_id circuit + (?i - 1 - of_nat ?K)"
    using nz by (simp add: convert_variable_id_def Let_def)
  have "?i - 1 - of_nat ?K = (of_nat m :: u64)" by simp
  with conv have conv': "convert_variable_id circuit ?i = free_variable_id circuit + of_nat m"
    by simp
  have run: "serialize_protoboard_local_assignment P circuit L pb =
           Inr (Message_Witness
             \<lparr>variable_ids = map (\<lambda>j. free_variable_id circuit + of_nat j)
                [0..<num_variables pb - (?K + L)],
              values_bytes = concat (map
                (\<lambda>j. le_bytes (as_bigint P (full_assignment pb ! (1 + ?K + L + j))))
                [0..<num_variables pb - (?K + L)])\<rparr>)"
    using a by (intro local_assignment_ok) simp_all
  show "\<exists>vars. serialize_protoboard_local_assignment P circuit L pb = Inr (Message_Witness vars) \<and>
         convert_variable_id circuit ?i = variable_ids vars ! m"
    using a conv' unfolding run by simp
qed

theorem convert_variable_id_outputs_as_locals_witness:
  "convert_variable_id example_circuit 3 = 100 \<and>
   (\<exists>vars. serialize_protoboard_local_assignment (bigint_params 1) example_circuit 1 example_pb =
        Inr (Message_Witness vars) \<and>
      convert_variable_id example_circuit 3 = variable_ids vars ! 0)"
proof -
  have h: "length (variable_ids (connections example_circuit)) + 1 \<le> num_variables example_pb \<and>
    fieldt_size (bigint_params 1) = bytes_per_limb * r_limbs (bigint_params 1) \<and>
    (\<forall>x \<in> set (pb_values example_pb).
       length (as_bigint (bigint_params 1) x) = r_limbs (bigint_params 1)) \<and>
    (0::nat) < 1 \<and>
    0 < num_variables example_pb - (length (variable_ids (connections example_circuit)) + 1) \<and>
    length (variable_ids (connections example_circuit)) + 1 + 0 < (2::nat) ^ 64"
    by (simp add: example_circuit_def example_pb_def num_variables_def bigint_params_def
        bytes_per_limb_def)
  have k: "length (variable_ids (connections example_circuit)) < unat (3 :: u64)"
    by (simp add: example_circuit_def)
  have i: "(of_nat (length (variable_ids (connections example_circuit)) + 1 + 0) :: u64) = 3"
    by (simp add: example_circuit_def)
  have c: "convert_variable_id example_circuit 3 = 100"
    using k convert_variable_id_outputs_as_locals [THEN conjunct1, of example_circuit 3]
    by (simp add: example_circuit_def)
  have "\<exists>vars. serialize_protoboard_local_assignment (bigint_params 1) example_circuit 1 example_pb =
        Inr (Message_Witness vars) \<and>
      convert_variable_id example_circuit 3 = variable_ids vars ! 0"
    using h convert_variable_id_outputs_as_locals
      [THEN conjunct2, of example_circuit 1 example_pb "bigint_params 1" 0]
    unfolding i by blast
  with c show ?thesis by (intro conjI)
qed

lemma lincomb_loop:
  "for_loop [0..<k] (\<lambda>i lc. Inr (add_term lc (ids ! i) (es ! i))) [] =
     Inr (map (\<lambda>i. \<lparr>index = ids ! i, coeff = es ! i\<rparr>) [0..<k])"
  by (induction k) (simp_all add: for_loop_Suc add_term_def del: upt_Suc, simp)

lemma deserialize_lincomb_ok:
  assumes "decodable P v"
  shows "\<exists>lc. deserialize_lincomb P v = Inr lc \<and> terms_of_wire P v lc"
proof -
  let ?ids = "variable_ids v"
  let ?n = "length ?ids"
  let ?s = "length (values_bytes v) div ?n"
  let ?es = "map (\<lambda>i. FieldT P (from_le_value (r_limbs P) (values_bytes v) (?s * i) ?s)) [0..<?n]"
  let ?lc = "map (\<lambda>i. \<lparr>index = ?ids ! i, coeff = ?es ! i\<rparr>) [0..<?n]"
  have n: "0 < ?n" and cap: "?s \<le> bytes_per_limb * r_limbs P"
    using assms by (simp_all add: decodable_def)
  have dec: "deserialize_elements P (values_bytes v) ?n = Inr ?es"
    using n cap by (rule deserialize_elements_ok)
  then have run: "deserialize_lincomb P v = Inr ?lc"
    by (simp add: deserialize_lincomb_def Let_def lincomb_loop)
  have "map index ?lc = ?ids"
    by (rule nth_equalityI) simp_all
  moreover have "map coeff ?lc = ?es"
    by (rule nth_equalityI) simp_all
  ultimately have "terms_of_wire P v ?lc"
    using dec by (simp only: terms_of_wire_def)
  with run show ?thesis by blast
qed

text \<open>
  Claim C1, as the code has it. \<open>deserialize_constraint\<close> imports each of the three
  linear combinations of a wire constraint term by term in wire order; the variable
  of a term is built from the wire id itself, and no connection ids or free id are
  consulted: the source has no translation to internal indices. The linear
  combinations have at least one term each here (with none, the element size is a
  division by zero), and their elements fit the limbs.
\<close>

theorem deserialize_constraint_keeps_wire_ids:
  assumes "decodable P (linear_combination_a c)"
    and "decodable P (linear_combination_b c)"
    and "decodable P (linear_combination_c c)"
  shows "\<exists>la lb lc. deserialize_constraint P c = Inr \<lparr>lc_a = la, lc_b = lb, lc_c = lc\<rparr> \<and>
           terms_of_wire P (linear_combination_a c) la \<and>
           terms_of_wire P (linear_combination_b c) lb \<and>
           terms_of_wire P (linear_combination_c c) lc"
proof -
  obtain la where a: "deserialize_lincomb P (linear_combination_a c) = Inr la"
      "terms_of_wire P (linear_combination_a c) la"
    using deserialize_lincomb_ok [OF assms(1)] by blast
  obtain lb where b: "deserialize_lincomb P (linear_combination_b c) = Inr lb"
      "terms_of_wire P (linear_combination_b c) lb"
    using deserialize_lincomb_ok [OF assms(2)] by blast
  obtain lc where c: "deserialize_lincomb P (linear_combination_c c) = Inr lc"
      "terms_of_wire P (linear_combination_c c) lc"
    using deserialize_lincomb_ok [OF assms(3)] by blast
  have "deserialize_constraint P c = Inr \<lparr>lc_a = la, lc_b = lb, lc_c = lc\<rparr>"
    using a(1) b(1) c(1) by (simp add: deserialize_constraint_def)
  with a(2) b(2) c(2) show ?thesis by blast
qed

theorem deserialize_constraint_keeps_wire_ids_counterexample:
  "deserialize_constraint (bigint_params 1) example_wire_constraint =
     Inr \<lparr>lc_a = [\<lparr>index = 100, coeff = [3]\<rparr>], lc_b = [\<lparr>index = 9, coeff = [7]\<rparr>],
          lc_c = [\<lparr>index = 0, coeff = [1]\<rparr>]\<rparr> \<and>
   spec_to_internal 100 [5, 9] 100 = 197"
  by code_simp

theorem deserialize_constraint_keeps_wire_ids_witness:
  "decodable (bigint_params 1) (linear_combination_a example_wire_constraint) \<and>
   decodable (bigint_params 1) (linear_combination_b example_wire_constraint) \<and>
   decodable (bigint_params 1) (linear_combination_c example_wire_constraint) \<and>
   (\<exists>la lb lc. deserialize_constraint (bigint_params 1) example_wire_constraint =
        Inr \<lparr>lc_a = la, lc_b = lb, lc_c = lc\<rparr> \<and>
      terms_of_wire (bigint_params 1) (linear_combination_a example_wire_constraint) la \<and>
      terms_of_wire (bigint_params 1) (linear_combination_b example_wire_constraint) lb \<and>
      terms_of_wire (bigint_params 1) (linear_combination_c example_wire_constraint) lc)"
proof -
  have h1: "decodable (bigint_params 1) (linear_combination_a example_wire_constraint)"
    by (simp add: decodable_def example_wire_constraint_def bigint_params_def bytes_per_limb_def)
  have h2: "decodable (bigint_params 1) (linear_combination_b example_wire_constraint)"
    by (simp add: decodable_def example_wire_constraint_def bigint_params_def bytes_per_limb_def)
  have h3: "decodable (bigint_params 1) (linear_combination_c example_wire_constraint)"
    by (simp add: decodable_def example_wire_constraint_def bigint_params_def bytes_per_limb_def)
  from h1 h2 h3 deserialize_constraint_keeps_wire_ids [OF h1 h2 h3]
  show ?thesis by (intro conjI)
qed

lemma val_assign_ok:
  assumes "var \<noteq> 0" and "unat var \<le> length (pb_values pb)"
  shows "val_assign pb (unat var) x = Inr (pb\<lparr>pb_values := (pb_values pb)[unat var - 1 := x]\<rparr>)"
proof -
  have "unat var \<noteq> 0" using assms(1) by (simp add: unat_eq_0)
  with assms(2) show ?thesis by (simp add: val_assign_def)
qed

lemma unat_pred_eq:
  assumes "a \<noteq> 0" and "b \<noteq> 0"
  shows "unat a - 1 = unat b - 1 \<longleftrightarrow> a = (b :: u64)"
proof -
  have "0 < unat a" "0 < unat b" using assms by (simp_all add: unat_gt_0)
  then have "unat a - 1 = unat b - 1 \<longleftrightarrow> unat a = unat b" by arith
  then show ?thesis by (simp add: word_unat_eq_iff)
qed

lemma copy_variables_loop:
  assumes ids: "\<And>i. i < n \<Longrightarrow> unat (ids ! i) \<le> length (pb_values pb)"
  shows "k \<le> n \<Longrightarrow>
     \<exists>pb'. for_loop [0..<k] (copy_variables_body ids es) pb = Inr pb' \<and>
       constant_term pb' = constant_term pb \<and>
       length (pb_values pb') = length (pb_values pb) \<and>
       (\<forall>var. var \<noteq> 0 \<and> unat var \<le> length (pb_values pb) \<longrightarrow>
          pb_values pb' ! (unat var - 1) =
            (case last_value ids es k var of
               Some x \<Rightarrow> x
             | None \<Rightarrow> pb_values pb ! (unat var - 1)))"
proof (induction k)
  case 0
  then show ?case by simp
next
  case (Suc k)
  then obtain pb' where run: "for_loop [0..<k] (copy_variables_body ids es) pb = Inr pb'"
    and ct: "constant_term pb' = constant_term pb"
    and len: "length (pb_values pb') = length (pb_values pb)"
    and vals: "\<And>var. var \<noteq> 0 \<Longrightarrow> unat var \<le> length (pb_values pb) \<Longrightarrow>
          pb_values pb' ! (unat var - 1) =
            (case last_value ids es k var of
               Some x \<Rightarrow> x
             | None \<Rightarrow> pb_values pb ! (unat var - 1))"
    by auto
  have step: "for_loop [0..<Suc k] (copy_variables_body ids es) pb =
      copy_variables_body ids es k pb'"
    using run by (simp add: for_loop_Suc del: upt_Suc)
  show ?case
  proof (cases "ids ! k = 0")
    case True
    then have "copy_variables_body ids es k pb' = Inr pb'"
      by (simp add: copy_variables_body_def)
    moreover have "last_value ids es (Suc k) var = last_value ids es k var" if "var \<noteq> 0" for var
      using True that by auto
    ultimately show ?thesis
      using step ct len vals by auto
  next
    case False
    let ?pb'' = "pb'\<lparr>pb_values := (pb_values pb')[unat (ids ! k) - 1 := es ! k]\<rparr>"
    have bound: "unat (ids ! k) \<le> length (pb_values pb')"
      using ids [of k] Suc.prems len by simp
    then have body: "copy_variables_body ids es k pb' = Inr ?pb''"
      using False by (simp add: copy_variables_body_def Let_def val_assign_ok)
    have "pb_values ?pb'' ! (unat var - 1) =
            (case last_value ids es (Suc k) var of
               Some x \<Rightarrow> x
             | None \<Rightarrow> pb_values pb ! (unat var - 1))"
      if var: "var \<noteq> 0" "unat var \<le> length (pb_values pb)" for var
    proof (cases "ids ! k = var")
      case True
      have "0 < unat var" using var(1) by (simp add: unat_gt_0)
      then have "unat var - 1 < length (pb_values pb')" using var(2) len by arith
      with True show ?thesis by simp
    next
      case False
      then have "unat (ids ! k) - 1 \<noteq> unat var - 1"
        using unat_pred_eq [OF \<open>ids ! k \<noteq> 0\<close> var(1)] by simp
      then show ?thesis using False vals [OF var] by simp
    qed
    then show ?thesis
      using step body ct len by auto
  qed
qed

lemma copy_variables_constant:
  "for_loop [0..<k] (copy_variables_body ids es) pb = Inr pb' \<Longrightarrow>
   constant_term pb' = constant_term pb"
proof (induction k arbitrary: pb')
  case 0
  then show ?case by simp
next
  case (Suc k)
  from Suc.prems have unfolded:
    "(case for_loop [0..<k] (copy_variables_body ids es) pb of
        Inl e \<Rightarrow> Inl e
      | Inr s' \<Rightarrow> copy_variables_body ids es k s') = Inr pb'"
    by (simp only: for_loop_Suc)
  then obtain p where run: "for_loop [0..<k] (copy_variables_body ids es) pb = Inr p"
    and body: "copy_variables_body ids es k p = Inr pb'"
    by (cases "for_loop [0..<k] (copy_variables_body ids es) pb") simp_all
  have "constant_term pb' = constant_term p"
  proof (cases "ids ! k = 0")
    case True
    with body show ?thesis by (simp add: copy_variables_body_def)
  next
    case False
    then have "unat (ids ! k) \<noteq> 0" by (simp add: unat_eq_0)
    with body False show ?thesis
      by (cases "unat (ids ! k) \<le> length (pb_values p)")
        (auto simp: copy_variables_body_def Let_def val_assign_def)
  qed
  with Suc.IH [OF run] show ?case by simp
qed

lemma for_loop_skip:
  "(\<And>i s. i \<in> set xs \<Longrightarrow> body i s = Inr s) \<Longrightarrow> for_loop xs body s = Inr s"
  by (induction xs) simp_all

text \<open>
  Claim C2, as the code has it. \<open>copy_variables_into_protoboard\<close> takes each pair of
  a decodable message in turn, skips id 0, and writes the value at the wire id itself,
  used as the protoboard index: no translation by connection ids or free id takes
  place. Writes are unconditional, so each variable ends with the value of the last
  pair that names it, and variables that no pair names keep their values. The ids are
  within the allocated variables here; the protoboard asserts this.
\<close>

theorem copy_variables_last_write_wins:
  assumes "decodable P variables"
    and "\<forall>var \<in> set (variable_ids variables). unat var \<le> num_variables pb"
  shows "\<exists>es pb'.
     deserialize_elements P (values_bytes variables) (length (variable_ids variables)) = Inr es \<and>
     copy_variables_into_protoboard P pb variables = Inr pb' \<and>
     constant_term pb' = constant_term pb \<and>
     num_variables pb' = num_variables pb \<and>
     (\<forall>var. var \<noteq> 0 \<and> unat var \<le> num_variables pb \<longrightarrow>
        val pb' (unat var) =
          (case last_value (variable_ids variables) es (length (variable_ids variables)) var of
             Some x \<Rightarrow> Inr x
           | None \<Rightarrow> val pb (unat var)))"
proof -
  let ?ids = "variable_ids variables"
  let ?n = "length ?ids"
  obtain es where dec: "deserialize_elements P (values_bytes variables) ?n = Inr es"
    using assms(1) deserialize_elements_ok [of ?n "values_bytes variables" P]
    by (auto simp: decodable_def)
  have "unat (?ids ! i) \<le> length (pb_values pb)" if "i < ?n" for i
    using assms(2) that by (simp add: num_variables_def)
  then obtain pb' where run: "for_loop [0..<?n] (copy_variables_body ?ids es) pb = Inr pb'"
    and ct: "constant_term pb' = constant_term pb"
    and len: "length (pb_values pb') = length (pb_values pb)"
    and vals: "\<And>var. var \<noteq> 0 \<Longrightarrow> unat var \<le> length (pb_values pb) \<Longrightarrow>
          pb_values pb' ! (unat var - 1) =
            (case last_value ?ids es ?n var of
               Some x \<Rightarrow> x
             | None \<Rightarrow> pb_values pb ! (unat var - 1))"
    using copy_variables_loop [of ?n ?ids pb ?n es] by auto
  have copy: "copy_variables_into_protoboard P pb variables = Inr pb'"
    using dec run by (simp add: copy_variables_into_protoboard_def Let_def)
  have "val pb' (unat var) =
          (case last_value ?ids es ?n var of Some x \<Rightarrow> Inr x | None \<Rightarrow> val pb (unat var))"
    if var: "var \<noteq> 0" "unat var \<le> num_variables pb" for var
  proof -
    have nz: "unat var \<noteq> 0" using var(1) by (simp add: unat_eq_0)
    have le: "unat var \<le> length (pb_values pb)" using var(2) by (simp add: num_variables_def)
    show ?thesis
      using nz le len vals [OF var(1) le] by (simp add: val_def split: option.splits)
  qed
  with dec copy ct len show ?thesis
    by (auto simp: num_variables_def)
qed

text \<open>
  Claim C6. A pair with wire id 0 is skipped: the round of the loop that meets it
  returns the protoboard as it is and raises nothing. No import that returns has
  changed the value at index 0, and a decodable message whose ids are all 0 leaves the
  whole protoboard as it was.
\<close>

theorem copy_variables_skips_constant_one:
  "(ids ! i = 0 \<longrightarrow> copy_variables_body ids es i pb = Inr pb) \<and>
   (copy_variables_into_protoboard P pb variables = Inr pb' \<longrightarrow> val pb' 0 = val pb 0) \<and>
   (decodable P variables \<and> set (variable_ids variables) \<subseteq> {0} \<longrightarrow>
      copy_variables_into_protoboard P pb variables = Inr pb)"
proof (intro conjI impI)
  assume "ids ! i = 0"
  then show "copy_variables_body ids es i pb = Inr pb"
    by (simp add: copy_variables_body_def)
next
  assume "copy_variables_into_protoboard P pb variables = Inr pb'"
  then have "constant_term pb' = constant_term pb"
    by (auto simp: copy_variables_into_protoboard_def Let_def split: sum.splits
        dest: copy_variables_constant)
  then show "val pb' 0 = val pb 0" by (simp add: val_def)
next
  let ?ids = "variable_ids variables"
  assume a: "decodable P variables \<and> set ?ids \<subseteq> {0}"
  then obtain es where dec:
      "deserialize_elements P (values_bytes variables) (length ?ids) = Inr es"
    using deserialize_elements_ok [of "length ?ids" "values_bytes variables" P]
    by (auto simp: decodable_def)
  have "copy_variables_body ?ids es i s = Inr s" if "i \<in> set [0..<length ?ids]" for i s
  proof -
    have "?ids ! i \<in> set ?ids" using that by simp
    then have "?ids ! i = 0" using a by auto
    then show ?thesis by (simp add: copy_variables_body_def)
  qed
  then have "for_loop [0..<length ?ids] (copy_variables_body ?ids es) pb = Inr pb"
    by (rule for_loop_skip)
  with dec show "copy_variables_into_protoboard P pb variables = Inr pb"
    by (simp add: copy_variables_into_protoboard_def Let_def)
qed

theorem copy_variables_last_write_wins_counterexample:
  "copy_variables_into_protoboard (bigint_params 1) example_pb
     \<lparr>variable_ids = [4], values_bytes = [7, 0, 0, 0, 0, 0, 0, 0]\<rparr> =
     Inr (example_pb\<lparr>pb_values := [[11], [12], [13], [7]]\<rparr>) \<and>
   spec_to_internal 4 [1, 2] 4 = 5"
  by code_simp

theorem copy_variables_last_write_wins_witness:
  "decodable (bigint_params 1) example_assignment \<and>
   (\<exists>es pb'.
      deserialize_elements (bigint_params 1) (values_bytes example_assignment) 3 = Inr es \<and>
      copy_variables_into_protoboard (bigint_params 1) example_pb example_assignment = Inr pb' \<and>
      constant_term pb' = constant_term example_pb \<and>
      val pb' 4 = Inr (es ! 2))"
proof -
  have h1: "decodable (bigint_params 1) example_assignment"
    by (simp add: decodable_def example_assignment_def bigint_params_def bytes_per_limb_def)
  have h2: "\<forall>var \<in> set (variable_ids example_assignment). unat var \<le> num_variables example_pb"
    by (simp add: example_assignment_def example_pb_def num_variables_def)
  have n: "length (variable_ids example_assignment) = 3"
    by (simp add: example_assignment_def)
  obtain es pb' where
    dec: "deserialize_elements (bigint_params 1) (values_bytes example_assignment) 3 = Inr es"
    and run: "copy_variables_into_protoboard (bigint_params 1) example_pb example_assignment = Inr pb'"
    and ct: "constant_term pb' = constant_term example_pb"
    and vals: "\<forall>var. var \<noteq> 0 \<and> unat var \<le> num_variables example_pb \<longrightarrow>
        val pb' (unat var) =
          (case last_value (variable_ids example_assignment) es 3 var of
             Some x \<Rightarrow> Inr x
           | None \<Rightarrow> val example_pb (unat var))"
    using copy_variables_last_write_wins [OF h1 h2] unfolding n by blast
  have "(4 :: u64) \<noteq> 0 \<and> unat (4 :: u64) \<le> num_variables example_pb"
    by (simp add: example_pb_def num_variables_def)
  with vals have "val pb' (unat (4 :: u64)) =
      (case last_value (variable_ids example_assignment) es 3 4 of
         Some x \<Rightarrow> Inr x
       | None \<Rightarrow> val example_pb (unat (4 :: u64)))"
    by blast
  moreover have "last_value (variable_ids example_assignment) es 3 4 = Some (es ! 2)"
    by (simp add: example_assignment_def numeral_3_eq_3 numeral_2_eq_2)
  ultimately have "val pb' 4 = Inr (es ! 2)" by simp
  with h1 dec run ct show ?thesis by blast
qed

theorem copy_variables_skips_constant_one_witness:
  "copy_variables_body [4, 0, 4] [[7], [9], [8 :: limb]] 1 example_pb = Inr example_pb \<and>
   val (example_pb\<lparr>pb_values := [[11], [12], [13], [8]]\<rparr>) 0 = val example_pb 0 \<and>
   copy_variables_into_protoboard (bigint_params 1) example_pb
     \<lparr>variable_ids = [0], values_bytes = [5, 0, 0, 0, 0, 0, 0, 0]\<rparr> = Inr example_pb"
proof -
  have run: "copy_variables_into_protoboard (bigint_params 1) example_pb example_assignment =
      Inr (example_pb\<lparr>pb_values := [[11], [12], [13], [8]]\<rparr>)"
    by code_simp
  have zero: "decodable (bigint_params 1) \<lparr>variable_ids = [0], values_bytes = [5, 0, 0, 0, 0, 0, 0, 0]\<rparr> \<and>
      set (variable_ids \<lparr>variable_ids = [0], values_bytes = [5, 0, 0, 0, 0, 0, 0, 0]\<rparr>) \<subseteq> {0}"
    by (simp add: decodable_def bigint_params_def bytes_per_limb_def)
  have "copy_variables_body [4, 0, 4] [[7], [9], [8 :: limb]] 1 example_pb = Inr example_pb"
    using copy_variables_skips_constant_one
      [THEN conjunct1, of "[4, 0, 4]" 1 "[[7], [9], [8]]" example_pb]
    by simp
  moreover have "val (example_pb\<lparr>pb_values := [[11], [12], [13], [8]]\<rparr>) 0 = val example_pb 0"
    using run copy_variables_skips_constant_one
      [THEN conjunct2, THEN conjunct1, of "bigint_params 1" example_pb example_assignment
        "example_pb\<lparr>pb_values := [[11], [12], [13], [8]]\<rparr>"]
    by blast
  moreover have "copy_variables_into_protoboard (bigint_params 1) example_pb
     \<lparr>variable_ids = [0], values_bytes = [5, 0, 0, 0, 0, 0, 0, 0]\<rparr> = Inr example_pb"
    using zero copy_variables_skips_constant_one
      [THEN conjunct2, THEN conjunct2, of "bigint_params 1"
        "\<lparr>variable_ids = [0], values_bytes = [5, 0, 0, 0, 0, 0, 0, 0]\<rparr>" example_pb]
    by blast
  ultimately show ?thesis by (intro conjI)
qed

end
